theory Spec2Isabelle
  imports Main
begin

section \<open>Strings and Python built-ins\<close>

text \<open>
  A Python \<open>str\<close> is a sequence of Unicode code points; it is modelled as the list of
  its code points. ASCII literals of the source are written through \<open>ustr\<close>, all other
  literals are given by their code points.
\<close>

type_synonym ustring = "nat list"

definition ustr :: "string \<Rightarrow> ustring" where
  "ustr s = map of_char s"

text \<open>\<open>p in s\<close> on two \<open>str\<close> values: \<open>p\<close> occurs in \<open>s\<close> as a contiguous run.\<close>

fun starts_with :: "ustring \<Rightarrow> ustring \<Rightarrow> bool" where
  "starts_with [] s = True"
| "starts_with (x # xs) [] = False"
| "starts_with (x # xs) (y # ys) = (x = y \<and> starts_with xs ys)"

fun py_in :: "ustring \<Rightarrow> ustring \<Rightarrow> bool" where
  "py_in p [] = (p = [])"
| "py_in p (c # s) = (starts_with p (c # s) \<or> py_in p s)"

text \<open>
  \<open>any(f(p) for p in ps)\<close>: the first element that satisfies \<open>f\<close> ends the search.
\<close>

fun py_any :: "('a \<Rightarrow> bool) \<Rightarrow> 'a list \<Rightarrow> bool" where
  "py_any f [] = False"
| "py_any f (p # ps) = (if f p then True else py_any f ps)"

text \<open>
  \<open>str.strip()\<close> removes leading and trailing white space; \<open>py_isspace\<close> is the set of
  code points that CPython treats as white space.
\<close>

definition py_isspace :: "nat \<Rightarrow> bool" where
  "py_isspace c \<longleftrightarrow>
     (9 \<le> c \<and> c \<le> 13) \<or> (28 \<le> c \<and> c \<le> 32) \<or> c = 133 \<or> c = 160 \<or> c = 5760 \<or>
     (8192 \<le> c \<and> c \<le> 8202) \<or> c = 8232 \<or> c = 8233 \<or> c = 8239 \<or> c = 8287 \<or> c = 12288"

definition py_strip :: "ustring \<Rightarrow> ustring" where
  "py_strip s = rev (dropWhile py_isspace (rev (dropWhile py_isspace s)))"

text \<open>
  \<open>str(v)\<close> and the formatting of \<open>v\<close> inside an f-string, for a value that is a string
  or \<open>None\<close>. JSON values read with \<open>dict.get\<close> are modelled as \<open>ustring option\<close>:
  \<open>None\<close> stands for a key that is absent or \<open>null\<close> (\<open>get\<close> answers \<open>None\<close> for both),
  \<open>Some s\<close> for a JSON string. Other JSON types in these positions are outside the model.
\<close>

definition py_str :: "ustring option \<Rightarrow> ustring" where
  "py_str v = (case v of None \<Rightarrow> ustr ''None'' | Some s \<Rightarrow> s)"

text \<open>Truth value of such a value: \<open>None\<close> and the empty string are false.\<close>

definition truthy :: "ustring option \<Rightarrow> bool" where
  "truthy v = (case v of None \<Rightarrow> False | Some s \<Rightarrow> s \<noteq> [])"

text \<open>\<open>a or b\<close>: \<open>a\<close> when it is true, otherwise \<open>b\<close> whatever its truth value.\<close>

definition py_or :: "ustring option \<Rightarrow> ustring option \<Rightarrow> ustring option" where
  "py_or a b = (if truthy a then a else b)"

text \<open>
  \<open>str.lower()\<close> is a built-in of the language whose table covers all of Unicode. The
  model takes it as a parameter \<open>lower :: ustring \<Rightarrow> ustring\<close> of every function that
  calls it, so each theorem holds for whatever \<open>str.lower\<close> computes. \<open>lower_basic\<close> is
  its restriction to Basic Latin and the Cyrillic block U+0400..U+044F, used for
  concrete instances.
\<close>

definition lower_cp :: "nat \<Rightarrow> nat" where
  "lower_cp c =
     (if 65 \<le> c \<and> c \<le> 90 then c + 32
      else if 1040 \<le> c \<and> c \<le> 1071 then c + 32
      else if 1024 \<le> c \<and> c \<le> 1039 then c + 80
      else c)"

definition lower_basic :: "ustring \<Rightarrow> ustring" where
  "lower_basic s = map lower_cp s"

section \<open>The classifier (bot.py)\<close>

text \<open>The phrase list \<open>REJECTION_PATTERNS\<close> of bot.py, in source order.\<close>

definition REJECTION_PATTERNS :: "ustring list" where
  "REJECTION_PATTERNS =
    [ [1082, 32, 1089, 1086, 1078, 1072, 1083, 1077, 1085, 1080, 1102],
      [1082, 32, 1089, 1086, 1078, 1077, 1083, 1077, 1085, 1080, 1102],
      [1084, 1099, 32, 1085, 1077, 32, 1075, 1086, 1090, 1086, 1074, 1099, 32, 1074, 1072,
       1089, 32, 1087, 1088, 1080, 1085, 1103, 1090, 1100],
      [1074, 1099, 32, 1085, 1072, 1084, 32, 1085, 1077, 32, 1087, 1086, 1076, 1093, 1086,
       1076, 1080, 1090, 1077],
      [1074, 1099, 1085, 1091, 1078, 1076, 1077, 1085, 1099, 32, 1086, 1090, 1082, 1072, 1079,
       1072, 1090, 1100],
      [1086, 1090, 1082, 1072, 1079],
      [1085, 1077, 32, 1089, 1084, 1086, 1078, 1077, 1084, 32, 1087, 1088, 1086, 1076, 1086,
       1083, 1078, 1080, 1090, 1100] ]"

text \<open>
  The text classifier, lines 253--254 of bot.py:
  \<^verbatim>\<open>t_low = text.lower(); is_rej = any(p in t_low for p in REJECTION_PATTERNS)\<close>
\<close>

definition classify :: "(ustring \<Rightarrow> ustring) \<Rightarrow> ustring \<Rightarrow> bool" where
  "classify lower text = (let t_low = lower text in py_any (\<lambda>p. py_in p t_low) REJECTION_PATTERNS)"

section \<open>The store (db_models.py)\<close>

text \<open>
  The columns of \<open>users\<close> and \<open>notifications\<close> that bot.py and hh_web.py read or write.
  A table is the list of its rows in insertion order. The primary key of a notification
  is its position in the table: the code never reads \<open>Notification.id\<close>, it only holds
  the row object, and no modelled operation deletes a row. \<open>created_at\<close> is a reading of
  the store's clock, a natural number.
\<close>

record user =
  u_id :: int
  u_telegram_id :: int
  u_hh_user_id :: "ustring option"
  u_hh_access_token :: "ustring option"
  u_mute_rejections :: bool

record notification =
  n_user_id :: int
  n_kind :: ustring
  n_hh_object_id :: "ustring option"
  n_text :: ustring
  n_is_rejection :: bool
  n_sent :: bool
  n_created_at :: nat

section \<open>The delivery worker (bot.py, notifications\_worker)\<close>

text \<open>
  The messaging endpoint \<open>bot.send_message(chat_id, text)\<close>. It is a collaborator with a
  state \<open>'e\<close> of its own: a call answers whether it returned (\<open>True\<close>) or raised an
  exception (\<open>False\<close>), and the endpoint's next state.
\<close>

type_synonym 'e endpoint = "'e \<Rightarrow> int \<Rightarrow> ustring \<Rightarrow> bool \<times> 'e"

text \<open>
  The trace of one cycle: one entry per call of \<open>send_message\<close>, in call order, with the
  row of the notification it was made for, the arguments and the outcome.
\<close>

record call =
  c_row :: nat
  c_chat :: int
  c_text :: ustring
  c_ok :: bool

text \<open>
  The query of lines 139--145: notifications with \<open>sent == False\<close> joined to the users with
  \<open>User.id == Notification.user_id\<close>, ordered by \<open>created_at\<close>. Each row carries the position
  of the notification. Rows with equal \<open>created_at\<close> keep table order (the store is free
  to order them).
\<close>

definition unsent_rows :: "user list \<Rightarrow> notification list \<Rightarrow> (nat \<times> notification \<times> user) list" where
  "unsent_rows users ns =
     sort_key (\<lambda>(i, notif, user). n_created_at notif)
       [(i, notif, user). (i, notif) \<leftarrow> enumerate 0 ns, \<not> n_sent notif,
                          user \<leftarrow> users, u_id user = n_user_id notif]"

text \<open>\<open>notif.sent = True\<close> on the row object at position \<open>i\<close>.\<close>

definition mark_sent :: "nat \<Rightarrow> notification list \<Rightarrow> notification list" where
  "mark_sent i ns = (if i < length ns then ns[i := (ns ! i)\<lparr>n_sent := True\<rparr>] else ns)"

text \<open>
  The loop of lines 147--157 over the selected rows. A rejection of a user with
  \<open>mute_rejections\<close> is marked sent without a call; otherwise \<open>send_message\<close> is called and
  the row is marked sent when the call returns; when it raises, the exception is logged
  and the loop goes on.
\<close>

fun deliver :: "'e endpoint \<Rightarrow> (nat \<times> notification \<times> user) list \<Rightarrow> notification list \<Rightarrow> 'e
    \<Rightarrow> notification list \<times> call list \<times> 'e" where
  "deliver send [] ns e = (ns, [], e)"
| "deliver send ((i, notif, user) # rows) ns e =
     (if n_is_rejection notif \<and> u_mute_rejections user
      then deliver send rows (mark_sent i ns) e
      else
        (case send e (u_telegram_id user) (n_text notif) of
           (ok, e') \<Rightarrow>
             (case deliver send rows (if ok then mark_sent i ns else ns) e' of
                (ns', calls, e'') \<Rightarrow>
                  (ns', \<lparr>c_row = i, c_chat = u_telegram_id user, c_text = n_text notif,
                         c_ok = ok\<rparr> # calls, e''))))"

text \<open>The condition of line 149 on a selected row.\<close>

definition suppressed :: "nat \<times> notification \<times> user \<Rightarrow> bool" where
  "suppressed row = (case row of (i, notif, user) \<Rightarrow> n_is_rejection notif \<and> u_mute_rejections user)"

text \<open>
  One cycle of the worker: select, loop, \<open>session.commit()\<close>. The result is the
  notifications table after the commit, the trace of calls and the endpoint's state.
  The store itself is taken to work (a failing query or commit is the persistence
  failure of the whole cycle, which the outer handler logs).
\<close>

definition notifications_worker_cycle ::
    "'e endpoint \<Rightarrow> user list \<Rightarrow> notification list \<Rightarrow> 'e \<Rightarrow> notification list \<times> call list \<times> 'e" where
  "notifications_worker_cycle send users ns e = deliver send (unsent_rows users ns) ns e"

section \<open>Queries, logging and errors\<close>

text \<open>
  The exceptions that the modelled code can raise: pydantic's \<open>ValidationError\<close> from
  \<open>WebhookEvent(**data)\<close> and SQLAlchemy's \<open>MultipleResultsFound\<close> from
  \<open>scalar_one_or_none()\<close>.
\<close>

datatype error = ValidationError | MultipleResultsFound

text \<open>\<open>Result.scalar_one_or_none()\<close> on the rows that a query selects.\<close>

fun scalar_one_or_none :: "'a list \<Rightarrow> error + 'a option" where
  "scalar_one_or_none [] = Inr None"
| "scalar_one_or_none [x] = Inr (Some x)"
| "scalar_one_or_none (x # y # rows) = Inl MultipleResultsFound"

text \<open>The table \<open>log_events\<close> and the database as the three tables the code touches.\<close>

record log_row =
  l_level :: ustring
  l_message :: ustring
  l_details :: "(ustring \<times> ustring) list"

record db =
  db_users :: "user list"
  db_notifications :: "notification list"
  db_log_events :: "log_row list"

text \<open>\<open>log_event\<close> of hh_web.py: one row added and committed in a session of its own.\<close>

definition log_event :: "ustring \<Rightarrow> ustring \<Rightarrow> (ustring \<times> ustring) list \<Rightarrow> db \<Rightarrow> db" where
  "log_event level message details d =
     d\<lparr>db_log_events := db_log_events d @ [\<lparr>l_level = level, l_message = message, l_details = details\<rparr>]\<rparr>"

text \<open>
  The column \<open>created_at\<close> has the server default \<open>now()\<close>. \<open>clock k\<close> is the reading of
  the store's clock when the row at position \<open>k\<close> of \<open>notifications\<close> is inserted; it is a
  parameter of both ingestors.
\<close>

section \<open>The webhook ingestor (hh\_web.py, hh\_webhook)\<close>

text \<open>
  The JSON body of the request, an object. Each of the five fields of \<open>WebhookEvent\<close> is
  \<open>None\<close> when the key is missing and has the declared type when it is present. The
  payload is a dictionary read only through \<open>get\<close>: the function from a key to the string
  stored under it, \<open>None\<close> for an absent or \<open>null\<close> entry.
\<close>

type_synonym payload = "ustring \<Rightarrow> ustring option"

record webhook_body =
  b_id :: "ustring option"
  b_subscription_id :: "ustring option"
  b_action_type :: "ustring option"
  b_user_id :: "ustring option"
  b_payload :: "payload option"

record WebhookEvent =
  e_id :: ustring
  e_subscription_id :: ustring
  e_action_type :: ustring
  e_user_id :: ustring
  e_payload :: payload

text \<open>\<open>WebhookEvent(**data)\<close>: every field is required.\<close>

definition WebhookEvent_validate :: "webhook_body \<Rightarrow> error + WebhookEvent" where
  "WebhookEvent_validate data =
     (case (b_id data, b_subscription_id data, b_action_type data, b_user_id data, b_payload data) of
        (Some i, Some s, Some a, Some u, Some p) \<Rightarrow>
          Inr \<lparr>e_id = i, e_subscription_id = s, e_action_type = a, e_user_id = u, e_payload = p\<rparr>
      | _ \<Rightarrow> Inl ValidationError)"

datatype response = PlainTextResponse ustring nat

text \<open>\<open>is_rejection_state\<close> of hh_web.py with its keyword list.\<close>

definition bad_keywords :: "ustring list" where
  "bad_keywords =
     [ustr ''discard'', ustr ''rejected'', ustr ''decline'',
      [1086, 1090, 1082, 1072, 1079],
      [1079, 1072, 1082, 1088, 1099, 1090, 1086],
      [1079, 1072, 1074, 1077, 1088, 1096, 1077, 1085, 1086]]"

definition is_rejection_state :: "(ustring \<Rightarrow> ustring) \<Rightarrow> ustring \<Rightarrow> bool" where
  "is_rejection_state lower to_state = (let s = lower to_state in py_any (\<lambda>k. py_in k s) bad_keywords)"

text \<open>The fixed parts of the two notification texts (lines 223--227 and 241--246).\<close>

definition invitation_header :: ustring where
  "invitation_header =
     [128233, 32, 1053, 1086, 1074, 1086, 1077, 32, 1087, 1088, 1080, 1075, 1083, 1072, 1096,
      1077, 1085, 1080, 1077, 32, 47, 32, 1086, 1090, 1082, 1083, 1080, 1082, 32, 1085, 1072, 32]
     @ ustr ''hh.ru'' @ [10] @ ustr ''vacancy_id: ''"

definition state_change_header :: ustring where
  "state_change_header =
     [128194, 32, 1048, 1079, 1084, 1077, 1085, 1077, 1085, 1080, 1077, 32, 1101, 1090, 1072,
      1087, 1072, 32, 1086, 1090, 1082, 1083, 1080, 1082, 1072, 32, 1085, 1072, 32]
     @ ustr ''hh.ru'' @ [10] @ ustr ''vacancy_id: ''"

text \<open>
  The handler of \<open>POST /hh/webhook\<close>. Its outcome is the response it returns, or the
  exception that leaves it, together with the database afterwards.
\<close>

definition hh_webhook ::
    "(ustring \<Rightarrow> ustring) \<Rightarrow> (nat \<Rightarrow> nat) \<Rightarrow> webhook_body \<Rightarrow> db \<Rightarrow> (error + response) \<times> db" where
  "hh_webhook lower clock data d =
     (case WebhookEvent_validate data of
        Inl err \<Rightarrow> (Inl err, d)
      | Inr event \<Rightarrow>
          let d1 = log_event (ustr ''INFO'') (ustr ''Incoming HH webhook'')
                     [(ustr ''action_type'', e_action_type event), (ustr ''user_id'', e_user_id event)] d
          in
          (case scalar_one_or_none
                  (filter (\<lambda>u. u_hh_user_id u = Some (e_user_id event)) (db_users d1)) of
             Inl err \<Rightarrow> (Inl err, d1)
           | Inr None \<Rightarrow>
               (Inr (PlainTextResponse (ustr ''unknown user'') 200),
                log_event (ustr ''WARNING'') (ustr ''Webhook for unknown hh_user_id'')
                  [(ustr ''hh_user_id'', e_user_id event)] d1)
           | Inr (Some user) \<Rightarrow>
               if e_action_type event = ustr ''NEW_RESPONSE_OR_INVITATION_VACANCY'' then
                 let payload = e_payload event;
                     vacancy_id = payload (ustr ''vacancy_id'');
                     resume_id = payload (ustr ''resume_id'');
                     hh_object_id = py_or (payload (ustr ''topic_id'')) (payload (ustr ''chat_id''));
                     notif_text = invitation_header @ py_str vacancy_id @ [10]
                                  @ ustr ''resume_id: '' @ py_str resume_id;
                     notif = \<lparr>n_user_id = u_id user, n_kind = ustr ''invitation'',
                              n_hh_object_id = hh_object_id, n_text = notif_text,
                              n_is_rejection = False, n_sent = False,
                              n_created_at = clock (length (db_notifications d1))\<rparr>
                 in (Inr (PlainTextResponse (ustr ''ok'') 200),
                     d1\<lparr>db_notifications := db_notifications d1 @ [notif]\<rparr>)
               else if e_action_type event = ustr ''NEGOTIATION_EMPLOYER_STATE_CHANGE'' then
                 let payload = e_payload event;
                     from_state = payload (ustr ''from_state'');
                     to_state = payload (ustr ''to_state'');
                     vacancy_id = payload (ustr ''vacancy_id'');
                     resume_id = payload (ustr ''resume_id'');
                     transferred_at = payload (ustr ''transferred_at'');
                     hh_object_id = payload (ustr ''topic_id'');
                     is_rej = is_rejection_state lower (py_str to_state);
                     notif_text = state_change_header @ py_str vacancy_id @ [10]
                                  @ ustr ''resume_id: '' @ py_str resume_id @ [10]
                                  @ py_str from_state @ [32, 10140, 32] @ py_str to_state
                                  @ ustr '' ('' @ py_str transferred_at @ ustr '')'';
                     notif = \<lparr>n_user_id = u_id user, n_kind = ustr ''state_change'',
                              n_hh_object_id = hh_object_id, n_text = notif_text,
                              n_is_rejection = is_rej, n_sent = False,
                              n_created_at = clock (length (db_notifications d1))\<rparr>
                 in (Inr (PlainTextResponse (ustr ''ok'') 200),
                     d1\<lparr>db_notifications := db_notifications d1 @ [notif]\<rparr>)
               else (Inr (PlainTextResponse (ustr ''ignored'') 200), d1)))"

text \<open>
  What the caller of the endpoint receives. A response carries its own status code. An
  exception that leaves the handler is answered by the framework with status 500:
  hh_web.py registers no exception handler and the handler has no \<open>try\<close>, and neither
  exception of \<open>error\<close> is an \<open>HTTPException\<close>.
\<close>

definition status_code :: "error + response \<Rightarrow> nat" where
  "status_code r = (case r of Inl err \<Rightarrow> 500 | Inr (PlainTextResponse body code) \<Rightarrow> code)"

section \<open>The poll ingestor (bot.py, hh\_messages\_worker)\<close>

text \<open>
  The platform's API as one cycle sees it. A request carries the user's access token, so
  the answers are functions of the token: the negotiations of the account, and the
  messages of one negotiation. \<open>FetchFailed\<close> is a request that raises (network error or
  \<open>raise_for_status\<close>); \<open>Fetched xs\<close> is the list \<open>resp.json().get("items", [])\<close>.
\<close>

datatype 'a fetch = FetchFailed | Fetched 'a

text \<open>
  The fields of a negotiation and of a message that the loop reads. \<open>neg_id\<close>,
  \<open>neg_topic_id\<close>, \<open>m_id\<close> and \<open>m_text\<close> are the results of \<open>get\<close> (a string, or \<open>None\<close> for an
  absent or \<open>null\<close> entry); \<open>m_author_me\<close> is the truth value of
  \<open>msg.get("author", {}).get("me", False)\<close>.
\<close>

record negotiation =
  neg_id :: "ustring option"
  neg_topic_id :: "ustring option"

record message =
  m_id :: "ustring option"
  m_text :: "ustring option"
  m_author_me :: bool

record upstream =
  up_negotiations :: "ustring \<Rightarrow> negotiation list fetch"
  up_messages :: "ustring \<Rightarrow> ustring \<Rightarrow> message list fetch"

text \<open>The fixed head of a message notification's text (line 260).\<close>

definition message_header :: ustring where
  "message_header =
     [128172, 32, 1053, 1086, 1074, 1086, 1077, 32, 1089, 1086, 1086, 1073, 1097, 1077, 1085,
      1080, 1077, 32, 1085, 1072, 32] @ ustr ''hh.ru:'' @ [10, 10]"

text \<open>The dedup query of lines 241--247.\<close>

definition existing_notifications :: "int \<Rightarrow> ustring \<Rightarrow> notification list \<Rightarrow> notification list" where
  "existing_notifications uid msg_id ns =
     filter (\<lambda>n. n_user_id n = uid \<and> n_kind n = ustr ''message'' \<and> n_hh_object_id n = Some msg_id) ns"

text \<open>
  The body of the loop over the messages of one negotiation (lines 232--263), on the
  notifications as the open session sees them (the session flushes an added row before the
  next query). \<open>Inl\<close> is the exception of \<open>scalar_one_or_none\<close>.
\<close>

definition poll_message ::
    "(ustring \<Rightarrow> ustring) \<Rightarrow> (nat \<Rightarrow> nat) \<Rightarrow> user \<Rightarrow> notification list \<Rightarrow> message
     \<Rightarrow> error + notification list" where
  "poll_message lower clock user ns msg =
     (let msg_id = py_str (m_id msg);
          text = py_strip (case m_text msg of None \<Rightarrow> [] | Some t \<Rightarrow> t);
          author_me = m_author_me msg
      in if author_me \<or> text = [] then Inr ns
         else
           (case scalar_one_or_none (existing_notifications (u_id user) msg_id ns) of
              Inl err \<Rightarrow> Inl err
            | Inr (Some existing) \<Rightarrow> Inr ns
            | Inr None \<Rightarrow>
                let is_rej = classify lower text;
                    notif = \<lparr>n_user_id = u_id user, n_kind = ustr ''message'',
                             n_hh_object_id = Some msg_id, n_text = message_header @ text,
                             n_is_rejection = is_rej, n_sent = False,
                             n_created_at = clock (length ns)\<rparr>
                in Inr (ns @ [notif])))"

fun poll_messages ::
    "(ustring \<Rightarrow> ustring) \<Rightarrow> (nat \<Rightarrow> nat) \<Rightarrow> user \<Rightarrow> notification list \<Rightarrow> message list
     \<Rightarrow> error + notification list" where
  "poll_messages lower clock user ns [] = Inr ns"
| "poll_messages lower clock user ns (msg # msgs) =
     (case poll_message lower clock user ns msg of
        Inl err \<Rightarrow> Inl err
      | Inr ns' \<Rightarrow> poll_messages lower clock user ns' msgs)"

text \<open>
  The loop over the negotiations of one user (lines 213--229): a negotiation without an
  id, or whose messages cannot be fetched, is passed over.
\<close>

fun poll_negotiations ::
    "(ustring \<Rightarrow> ustring) \<Rightarrow> (nat \<Rightarrow> nat) \<Rightarrow> upstream \<Rightarrow> user \<Rightarrow> ustring \<Rightarrow> notification list
     \<Rightarrow> negotiation list \<Rightarrow> error + notification list" where
  "poll_negotiations lower clock up user token ns [] = Inr ns"
| "poll_negotiations lower clock up user token ns (neg # negs) =
     (case py_or (neg_id neg) (neg_topic_id neg) of
        None \<Rightarrow> poll_negotiations lower clock up user token ns negs
      | Some nid \<Rightarrow>
          if nid = [] then poll_negotiations lower clock up user token ns negs
          else
            (case up_messages up token nid of
               FetchFailed \<Rightarrow> poll_negotiations lower clock up user token ns negs
             | Fetched msgs \<Rightarrow>
                 (case poll_messages lower clock user ns msgs of
                    Inl err \<Rightarrow> Inl err
                  | Inr ns' \<Rightarrow> poll_negotiations lower clock up user token ns' negs)))"

text \<open>
  The loop over the users (lines 190--265). A user without a token, or whose negotiations
  cannot be fetched, is passed over. The notifications of one user are added in one
  session that is committed after the user's last negotiation. An exception inside the
  session leaves it without a commit, so the user's additions are dropped, and is caught
  by the handler of line 267, which ends the cycle: the result is the committed table
  and the exception.
\<close>

fun poll_users ::
    "(ustring \<Rightarrow> ustring) \<Rightarrow> (nat \<Rightarrow> nat) \<Rightarrow> upstream \<Rightarrow> notification list \<Rightarrow> user list
     \<Rightarrow> error option \<times> notification list" where
  "poll_users lower clock up ns [] = (None, ns)"
| "poll_users lower clock up ns (user # users) =
     (case u_hh_access_token user of
        None \<Rightarrow> poll_users lower clock up ns users
      | Some token \<Rightarrow>
          if token = [] then poll_users lower clock up ns users
          else
            (case up_negotiations up token of
               FetchFailed \<Rightarrow> poll_users lower clock up ns users
             | Fetched negotiations \<Rightarrow>
                 (case poll_negotiations lower clock up user token ns negotiations of
                    Inl err \<Rightarrow> (Some err, ns)
                  | Inr ns' \<Rightarrow> poll_users lower clock up ns' users)))"

text \<open>
  One cycle of the ingestor: the users with \<open>hh_access_token IS NOT NULL\<close>, in table
  order, then the loop.
\<close>

definition hh_messages_cycle ::
    "(ustring \<Rightarrow> ustring) \<Rightarrow> (nat \<Rightarrow> nat) \<Rightarrow> upstream \<Rightarrow> user list \<Rightarrow> notification list
     \<Rightarrow> error option \<times> notification list" where
  "hh_messages_cycle lower clock up users ns =
     poll_users lower clock up ns (filter (\<lambda>u. u_hh_access_token u \<noteq> None) users)"

text \<open>
  The number of notifications of kind \<open>message\<close> that a user has under one dedup key.
\<close>

definition msg_count :: "int \<Rightarrow> ustring \<Rightarrow> notification list \<Rightarrow> nat" where
  "msg_count uid k ns = length (existing_notifications uid k ns)"

text \<open>
  A message that the loop turns into a notification unless the dedup check finds one: it
  is inbound and its text is not empty after trimming.
\<close>

definition eligible :: "message \<Rightarrow> bool" where
  "eligible msg \<longleftrightarrow>
     \<not> m_author_me msg \<and> py_strip (case m_text msg of None \<Rightarrow> [] | Some t \<Rightarrow> t) \<noteq> []"

text \<open>
  The messages that a cycle reads for a user: those of the negotiations with an id whose
  messages were fetched, for a user with a token whose negotiations were fetched.
\<close>

definition negotiation_messages :: "upstream \<Rightarrow> ustring \<Rightarrow> negotiation \<Rightarrow> message list" where
  "negotiation_messages up token neg =
     (case py_or (neg_id neg) (neg_topic_id neg) of
        None \<Rightarrow> []
      | Some nid \<Rightarrow>
          if nid = [] then []
          else (case up_messages up token nid of FetchFailed \<Rightarrow> [] | Fetched msgs \<Rightarrow> msgs))"

definition user_messages :: "upstream \<Rightarrow> user \<Rightarrow> message list" where
  "user_messages up user =
     (case u_hh_access_token user of
        None \<Rightarrow> []
      | Some token \<Rightarrow>
          if token = [] then []
          else (case up_negotiations up token of
                  FetchFailed \<Rightarrow> []
                | Fetched negotiations \<Rightarrow> concat (map (negotiation_messages up token) negotiations)))"

text \<open>
  The relation between the table before and after a run of the dedup loop: the old rows
  are a prefix of the new table, and the number of message notifications under any key is
  unchanged or went from none to one.
\<close>

definition dedup_step :: "notification list \<Rightarrow> notification list \<Rightarrow> bool" where
  "dedup_step ns ns' \<longleftrightarrow>
     take (length ns) ns' = ns \<and> length ns \<le> length ns' \<and>
     (\<forall>uid k. msg_count uid k ns' = msg_count uid k ns
              \<or> (msg_count uid k ns = 0 \<and> msg_count uid k ns' = 1))"

text \<open>Two tables that differ at most in \<open>created_at\<close>.\<close>

definition same_rows :: "notification list \<Rightarrow> notification list \<Rightarrow> bool" where
  "same_rows ns ns2 \<longleftrightarrow> map (\<lambda>n. n\<lparr>n_created_at := 0\<rparr>) ns = map (\<lambda>n. n\<lparr>n_created_at := 0\<rparr>) ns2"

text \<open>
  The invariant of the data model: a user has at most one notification of kind \<open>message\<close>
  under one dedup key.
\<close>

definition unique_messages :: "notification list \<Rightarrow> bool" where
  "unique_messages ns \<longleftrightarrow> (\<forall>uid k. msg_count uid k ns \<le> 1)"

section \<open>Sample data\<close>

text \<open>
  Two users, a constructor for pending notifications, an endpoint that raises for one
  chat and returns for every other, an endpoint that always returns, a webhook body and a
  database; the concrete instances of the theorems use them.
\<close>

definition user_a :: user where
  "user_a = \<lparr>u_id = 1, u_telegram_id = 101, u_hh_user_id = Some (ustr ''E1''),
              u_hh_access_token = Some (ustr ''tok1''), u_mute_rejections = True\<rparr>"

definition user_b :: user where
  "user_b = \<lparr>u_id = 2, u_telegram_id = 102, u_hh_user_id = Some (ustr ''E2''),
              u_hh_access_token = Some (ustr ''tok2''), u_mute_rejections = False\<rparr>"

definition pending :: "int \<Rightarrow> ustring \<Rightarrow> bool \<Rightarrow> nat \<Rightarrow> notification" where
  "pending uid txt rej t =
     \<lparr>n_user_id = uid, n_kind = ustr ''message'', n_hh_object_id = None, n_text = txt,
      n_is_rejection = rej, n_sent = False, n_created_at = t\<rparr>"

definition send_except :: "int \<Rightarrow> unit endpoint" where
  "send_except bad e chat txt = (chat \<noteq> bad, e)"

definition sample_payload :: payload where
  "sample_payload =
     [ustr ''vacancy_id'' \<mapsto> ustr ''1'', ustr ''resume_id'' \<mapsto> ustr ''2'', ustr ''topic_id'' \<mapsto> ustr ''t1'']"

definition sample_body :: "ustring \<Rightarrow> webhook_body" where
  "sample_body hh_user =
     \<lparr>b_id = Some (ustr ''ev1''), b_subscription_id = Some (ustr ''sub1''),
      b_action_type = Some (ustr ''NEW_RESPONSE_OR_INVITATION_VACANCY''),
      b_user_id = Some hh_user, b_payload = Some sample_payload\<rparr>"

definition sample_db :: db where
  "sample_db = \<lparr>db_users = [user_a, user_b], db_notifications = [], db_log_events = []\<rparr>"

definition send_always :: "unit endpoint" where
  "send_always e chat txt = (True, e)"

text \<open>An upstream with one negotiation of the second user, holding four messages.\<close>

definition msg_outbound :: message where
  "msg_outbound = \<lparr>m_id = Some (ustr ''m1''), m_text = Some (ustr ''hi''), m_author_me = True\<rparr>"

definition msg_inbound :: message where
  "msg_inbound = \<lparr>m_id = Some (ustr ''m2''), m_text = Some (ustr '' hello ''), m_author_me = False\<rparr>"

definition msg_idless :: "ustring \<Rightarrow> message" where
  "msg_idless txt = \<lparr>m_id = None, m_text = Some txt, m_author_me = False\<rparr>"

definition sample_upstream :: upstream where
  "sample_upstream =
     \<lparr>up_negotiations = (\<lambda>token. if token = ustr ''tok2''
          then Fetched [\<lparr>neg_id = Some (ustr ''n1''), neg_topic_id = None\<rparr>] else FetchFailed),
      up_messages = (\<lambda>token nid. if token = ustr ''tok2'' \<and> nid = ustr ''n1''
          then Fetched [msg_outbound, msg_inbound, msg_idless (ustr ''first''), msg_idless (ustr ''second'')]
          else FetchFailed)\<rparr>"

definition message_row :: "int \<Rightarrow> ustring \<Rightarrow> ustring \<Rightarrow> nat \<Rightarrow> notification" where
  "message_row uid k txt t =
     \<lparr>n_user_id = uid, n_kind = ustr ''message'', n_hh_object_id = Some k,
      n_text = message_header @ txt, n_is_rejection = False, n_sent = False, n_created_at = t\<rparr>"

section \<open>Properties of the built-ins\<close>

lemma starts_with_iff: "starts_with p s \<longleftrightarrow> (\<exists>ys. s = p @ ys)"
  by (induction p s rule: starts_with.induct) auto

lemma py_in_iff: "py_in p s \<longleftrightarrow> (\<exists>xs ys. s = xs @ p @ ys)"
proof (induction s)
  case Nil
  then show ?case by auto
next
  case (Cons c s)
  show ?case
  proof
    assume "py_in p (c # s)"
    then consider "starts_with p (c # s)" | "py_in p s" by auto
    then show "\<exists>xs ys. c # s = xs @ p @ ys"
    proof cases
      case 1
      then obtain ys where "c # s = p @ ys" by (auto simp: starts_with_iff)
      then have "c # s = [] @ p @ ys" by simp
      then show ?thesis by blast
    next
      case 2
      then obtain xs ys where "s = xs @ p @ ys" using Cons.IH by blast
      then have "c # s = (c # xs) @ p @ ys" by simp
      then show ?thesis by blast
    qed
  next
    assume "\<exists>xs ys. c # s = xs @ p @ ys"
    then obtain xs ys where eq: "c # s = xs @ p @ ys" by blast
    show "py_in p (c # s)"
    proof (cases xs)
      case Nil
      with eq have "starts_with p (c # s)" by (auto simp: starts_with_iff)
      then show ?thesis by simp
    next
      case (Cons x xs')
      with eq have "s = xs' @ p @ ys" by simp
      then have "py_in p s" using Cons.IH by blast
      then show ?thesis by simp
    qed
  qed
qed

lemma py_any_iff: "py_any f ps \<longleftrightarrow> (\<exists>p \<in> set ps. f p)"
  by (induction ps) auto

section \<open>Properties of the delivery loop\<close>

lemma mark_sent_length: "length (mark_sent i ns) = length ns"
  by (simp add: mark_sent_def)

lemma mark_sent_nth:
  "j < length ns \<Longrightarrow> mark_sent i ns ! j = (ns ! j)\<lparr>n_sent := n_sent (ns ! j) \<or> i = j\<rparr>"
  by (auto simp: mark_sent_def nth_list_update)

lemma deliver_Cons:
  "deliver send ((i, notif, user) # rows) ns e =
     (if suppressed (i, notif, user) then deliver send rows (mark_sent i ns) e
      else
        let r = send e (u_telegram_id user) (n_text notif);
            d = deliver send rows (if fst r then mark_sent i ns else ns) (snd r)
        in (fst d, \<lparr>c_row = i, c_chat = u_telegram_id user, c_text = n_text notif, c_ok = fst r\<rparr>
                    # fst (snd d), snd (snd d)))"
  by (simp add: suppressed_def Let_def split: prod.splits)

lemma deliver_length: "length (fst (deliver send rows ns e)) = length ns"
proof (induction rows arbitrary: ns e)
  case Nil
  show ?case by simp
next
  case (Cons r rows)
  obtain i notif user where r: "r = (i, notif, user)" by (cases r)
  show ?case
    unfolding r deliver_Cons by (simp add: Let_def Cons.IH mark_sent_length)
qed

lemma deliver_calls:
  "map (\<lambda>c. (c_row c, c_chat c, c_text c)) (fst (snd (deliver send rows ns e)))
   = map (\<lambda>(i, notif, user). (i, u_telegram_id user, n_text notif)) (filter (\<lambda>r. \<not> suppressed r) rows)"
proof (induction rows arbitrary: ns e)
  case Nil
  show ?case by simp
next
  case (Cons r rows)
  obtain i notif user where r: "r = (i, notif, user)" by (cases r)
  show ?case
    unfolding r deliver_Cons by (simp add: Let_def Cons.IH)
qed

lemma deliver_fields:
  "j < length ns \<Longrightarrow>
   fst (deliver send rows ns e) ! j = (ns ! j)\<lparr>n_sent := n_sent (fst (deliver send rows ns e) ! j)\<rparr>"
proof (induction rows arbitrary: ns e)
  case Nil
  then show ?case by simp
next
  case (Cons r rows)
  obtain i notif user where r: "r = (i, notif, user)" by (cases r)
  define res where "res = send e (u_telegram_id user) (n_text notif)"
  from Cons.prems Cons.IH [of "mark_sent i ns"] Cons.IH [of ns] show ?case
    unfolding r deliver_Cons res_def [symmetric]
    by (auto simp: Let_def mark_sent_length mark_sent_nth)
qed

lemma deliver_sent:
  "j < length ns \<Longrightarrow>
   n_sent (fst (deliver send rows ns e) ! j) \<longleftrightarrow>
     n_sent (ns ! j) \<or> (\<exists>r \<in> set rows. fst r = j \<and> suppressed r)
        \<or> (\<exists>c \<in> set (fst (snd (deliver send rows ns e))). c_row c = j \<and> c_ok c)"
proof (induction rows arbitrary: ns e)
  case Nil
  then show ?case by simp
next
  case (Cons r rows)
  obtain i notif user where r: "r = (i, notif, user)" by (cases r)
  define res where "res = send e (u_telegram_id user) (n_text notif)"
  from Cons.prems Cons.IH [of "mark_sent i ns"] Cons.IH [of ns] show ?case
    unfolding r deliver_Cons res_def [symmetric]
    by (auto simp: Let_def mark_sent_length mark_sent_nth)
qed

lemma unsent_rows_set:
  "set (unsent_rows users ns) =
     {(i, ns ! i, user) | i user. i < length ns \<and> \<not> n_sent (ns ! i) \<and> user \<in> set users
        \<and> u_id user = n_user_id (ns ! i)}"
  by (auto simp: unsent_rows_def in_set_enumerate_eq)

lemma unsent_rows_sorted:
  "sorted (map (\<lambda>(i, notif, user). n_created_at notif) (unsent_rows users ns))"
  by (simp add: unsent_rows_def)

lemma distinct_concat_tagged:
  assumes "distinct (map fst ps)"
    and "\<And>p. p \<in> set ps \<Longrightarrow> distinct (g p) \<and> (\<forall>r \<in> set (g p). tag r = fst p)"
  shows "distinct (concat (map g ps))"
  using assms
proof (induction ps)
  case Nil
  show ?case by simp
next
  case (Cons p ps)
  have "set (g p) \<inter> set (concat (map g ps)) = {}"
  proof (rule ccontr)
    assume "set (g p) \<inter> set (concat (map g ps)) \<noteq> {}"
    then obtain r q where "r \<in> set (g p)" "q \<in> set ps" "r \<in> set (g q)" by auto
    with Cons.prems(2) [of p] Cons.prems(2) [of q] have "fst p = fst q" by auto
    with \<open>q \<in> set ps\<close> Cons.prems(1) show False by force
  qed
  moreover have "distinct (concat (map g ps))"
    using Cons by simp
  moreover have "distinct (g p)"
    using Cons.prems(2) [of p] by simp
  ultimately show ?case by simp
qed

lemma concat_map_if_singleton:
  "concat (map (\<lambda>x. if P x then [f x] else []) xs) = map f (filter P xs)"
  by (induction xs) auto

lemma unsent_rows_distinct:
  assumes "distinct (map u_id users)"
  shows "distinct (unsent_rows users ns)"
proof -
  from assms have du: "distinct users" by (simp add: distinct_map)
  let ?g = "\<lambda>p. if \<not> n_sent (snd p)
              then concat (map (\<lambda>user. if u_id user = n_user_id (snd p)
                                        then [(fst p, snd p, user)] else []) users)
              else []"
  have "distinct (concat (map ?g (enumerate 0 ns)))"
  proof (rule distinct_concat_tagged [where tag = fst])
    show "distinct (map fst (enumerate 0 ns))" by simp
  next
    fix p assume "p \<in> set (enumerate 0 ns)"
    have "distinct (map (\<lambda>user. (fst p, snd p, user)) (filter (\<lambda>user. u_id user = n_user_id (snd p)) users))"
      using du by (simp add: distinct_map inj_on_def)
    then show "distinct (?g p) \<and> (\<forall>r \<in> set (?g p). fst r = fst p)"
      by (auto simp: concat_map_if_singleton)
  qed
  then show ?thesis
    by (simp add: unsent_rows_def case_prod_unfold)
qed

lemma distinct_set_singleton:
  assumes "distinct xs" and "set xs = {a}"
  shows "xs = [a]"
proof -
  from assms have "length xs = 1"
    using distinct_card [of xs] by simp
  then obtain y where "xs = [y]"
    by (cases xs) auto
  with assms(2) show ?thesis by simp
qed

lemma unsent_rows_mem:
  "(j, notif, u) \<in> set (unsent_rows users ns) \<longleftrightarrow>
     j < length ns \<and> notif = ns ! j \<and> \<not> n_sent (ns ! j) \<and> u \<in> set users \<and> u_id u = n_user_id (ns ! j)"
  unfolding unsent_rows_set by blast

lemma unsent_rows_filter_row:
  assumes "distinct (map u_id users)" and "i < length ns" and "\<not> n_sent (ns ! i)"
    and "user \<in> set users" and "u_id user = n_user_id (ns ! i)"
  shows "filter (\<lambda>r. fst r = i) (unsent_rows users ns) = [(i, ns ! i, user)]"
proof (rule distinct_set_singleton)
  show "distinct (filter (\<lambda>r. fst r = i) (unsent_rows users ns))"
    using unsent_rows_distinct [OF assms(1)] by simp
  have uniq: "u = user" if "u \<in> set users" "u_id u = n_user_id (ns ! i)" for u
  proof -
    from assms(1) have "inj_on u_id (set users)" by (simp add: distinct_map)
    with that assms(4,5) show ?thesis by (simp add: inj_on_def)
  qed
  show "set (filter (\<lambda>r. fst r = i) (unsent_rows users ns)) = {(i, ns ! i, user)}"
  proof (rule set_eqI)
    fix r :: "nat \<times> notification \<times> user"
    obtain j notif u where r: "r = (j, notif, u)" by (cases r)
    show "r \<in> set (filter (\<lambda>r. fst r = i) (unsent_rows users ns)) \<longleftrightarrow> r \<in> {(i, ns ! i, user)}"
      unfolding r using assms(2-5) uniq [of u] by (simp add: unsent_rows_mem) blast
  qed
qed

lemma cycle_calls_rows:
  assumes "notifications_worker_cycle send users ns e = (ns', calls, e')"
  shows "map (\<lambda>c. (c_row c, c_chat c, c_text c)) calls
     = map (\<lambda>(i, notif, user). (i, u_telegram_id user, n_text notif))
         (filter (\<lambda>r. \<not> suppressed r) (unsent_rows users ns))"
proof -
  from assms have "calls = fst (snd (deliver send (unsent_rows users ns) ns e))"
    by (simp add: notifications_worker_cycle_def)
  then show ?thesis by (simp only: deliver_calls)
qed

lemma cycle_calls_for_row:
  assumes "distinct (map u_id users)" and "i < length ns" and "\<not> n_sent (ns ! i)"
    and "user \<in> set users" and "u_id user = n_user_id (ns ! i)"
    and "notifications_worker_cycle send users ns e = (ns', calls, e')"
  shows "map (\<lambda>c. (c_row c, c_chat c, c_text c)) (filter (\<lambda>c. c_row c = i) calls)
     = (if suppressed (i, ns ! i, user) then [] else [(i, u_telegram_id user, n_text (ns ! i))])"
proof -
  let ?R = "unsent_rows users ns"
  let ?pc = "\<lambda>c. (c_row c, c_chat c, c_text c)"
  let ?pr = "\<lambda>(i, notif, user). (i, u_telegram_id user, n_text notif)"
  have "map ?pc (filter (\<lambda>c. c_row c = i) calls) = filter (\<lambda>t. fst t = i) (map ?pc calls)"
    by (simp add: filter_map comp_def)
  also have "\<dots> = filter (\<lambda>t. fst t = i) (map ?pr (filter (\<lambda>r. \<not> suppressed r) ?R))"
    by (simp only: cycle_calls_rows [OF assms(6)])
  also have "\<dots> = map ?pr (filter (\<lambda>r. \<not> suppressed r) (filter (\<lambda>r. fst r = i) ?R))"
    by (simp add: filter_map comp_def case_prod_unfold conj_commute)
  also have "\<dots> = map ?pr (filter (\<lambda>r. \<not> suppressed r) [(i, ns ! i, user)])"
    by (simp only: unsent_rows_filter_row [OF assms(1-5)])
  also have "\<dots> = (if suppressed (i, ns ! i, user) then [] else [(i, u_telegram_id user, n_text (ns ! i))])"
    by simp
  finally show ?thesis .
qed

lemma cycle_sent:
  assumes "j < length ns"
    and "notifications_worker_cycle send users ns e = (ns', calls, e')"
  shows "n_sent (ns' ! j) \<longleftrightarrow>
     n_sent (ns ! j) \<or> (\<exists>r \<in> set (unsent_rows users ns). fst r = j \<and> suppressed r)
        \<or> (\<exists>c \<in> set calls. c_row c = j \<and> c_ok c)"
proof -
  from assms(2) have "ns' = fst (deliver send (unsent_rows users ns) ns e)"
    and "calls = fst (snd (deliver send (unsent_rows users ns) ns e))"
    by (simp_all add: notifications_worker_cycle_def)
  then show ?thesis using deliver_sent [OF assms(1)] by simp
qed

lemma cycle_own_call:
  assumes "distinct (map u_id users)"
    and "i < length ns" and "\<not> n_sent (ns ! i)"
    and "user \<in> set users" and "u_id user = n_user_id (ns ! i)"
    and "\<not> (n_is_rejection (ns ! i) \<and> u_mute_rejections user)"
    and "notifications_worker_cycle send users ns e = (ns', calls, e')"
  shows "\<exists>c. filter (\<lambda>c. c_row c = i) calls = [c]
           \<and> c_chat c = u_telegram_id user \<and> c_text c = n_text (ns ! i)
           \<and> n_sent (ns' ! i) = c_ok c"
proof -
  from assms(6) have ns: "\<not> suppressed (i, ns ! i, user)" by (simp add: suppressed_def)
  with cycle_calls_for_row [OF assms(1,2,3,4,5,7)]
  have "map (\<lambda>c. (c_row c, c_chat c, c_text c)) (filter (\<lambda>c. c_row c = i) calls)
          = [(i, u_telegram_id user, n_text (ns ! i))]" by simp
  then obtain c where c: "filter (\<lambda>c. c_row c = i) calls = [c]"
    and p: "c_row c = i" "c_chat c = u_telegram_id user" "c_text c = n_text (ns ! i)"
    by (auto simp: map_eq_Cons_conv)
  have only: "d = c" if "d \<in> set calls" "c_row d = i" for d
  proof -
    from that have "d \<in> set (filter (\<lambda>c. c_row c = i) calls)" by simp
    with c show ?thesis by simp
  qed
  have cin: "c \<in> set calls"
  proof -
    have "c \<in> set (filter (\<lambda>c. c_row c = i) calls)" by (simp add: c)
    then show ?thesis by simp
  qed
  have nosupp: "\<not> (\<exists>r \<in> set (unsent_rows users ns). fst r = i \<and> suppressed r)"
  proof
    assume "\<exists>r \<in> set (unsent_rows users ns). fst r = i \<and> suppressed r"
    then obtain r where "r \<in> set (filter (\<lambda>r. fst r = i) (unsent_rows users ns))" "suppressed r"
      by auto
    with unsent_rows_filter_row [OF assms(1-5)] ns show False by simp
  qed
  have "n_sent (ns' ! i) \<longleftrightarrow> (\<exists>d \<in> set calls. c_row d = i \<and> c_ok d)"
    using cycle_sent [OF assms(2,7)] assms(3) nosupp by simp
  also have "\<dots> \<longleftrightarrow> c_ok c"
    using only cin p(1) by blast
  finally show ?thesis using c p by blast
qed

lemma deliver_calls_ok:
  assumes "\<forall>e0 chat txt. fst (send e0 chat txt)"
  shows "\<forall>c \<in> set (fst (snd (deliver send rows ns e))). c_ok c"
proof (induction rows arbitrary: ns e)
  case Nil
  show ?case by simp
next
  case (Cons r rows)
  obtain i notif user where r: "r = (i, notif, user)" by (cases r)
  show ?case
    unfolding r deliver_Cons using assms Cons.IH by (simp add: Let_def)
qed

lemma sorted_three:
  fixes f :: "'a \<Rightarrow> nat"
  assumes "sorted (map f xs)" and "distinct xs" and "set xs = {a, b, c}"
    and "f a < f b" and "f b < f c"
  shows "xs = [a, b, c]"
proof -
  have inj: "inj_on f {a, b, c}"
    using assms(4,5) by (auto simp: inj_on_def)
  have "map f xs = [f a, f b, f c]"
  proof (rule sorted_distinct_set_unique)
    show "sorted (map f xs)" by (rule assms(1))
    show "distinct (map f xs)" using assms(2,3) inj by (simp add: distinct_map)
    show "sorted [f a, f b, f c]" using assms(4,5) by simp
    show "distinct [f a, f b, f c]" using assms(4,5) by simp
    show "set (map f xs) = set [f a, f b, f c]" using assms(3) by simp
  qed
  then have "map f xs = map f [a, b, c]" by simp
  moreover have "inj_on f (set xs \<union> set [a, b, c])"
    using inj assms(3) by simp
  ultimately show ?thesis
    by (simp only: inj_on_map_eq_map)
qed

lemma cycle_call_rows:
  assumes "notifications_worker_cycle send users ns e = (ns', calls, e')"
  shows "map c_row calls = map fst (filter (\<lambda>r. \<not> suppressed r) (unsent_rows users ns))"
proof -
  have "map c_row calls = map fst (map (\<lambda>c. (c_row c, c_chat c, c_text c)) calls)"
    by (simp add: comp_def)
  also have "\<dots> = map fst (map (\<lambda>(i, notif, user). (i, u_telegram_id user, n_text notif))
                       (filter (\<lambda>r. \<not> suppressed r) (unsent_rows users ns)))"
    by (simp only: cycle_calls_rows [OF assms])
  also have "\<dots> = map fst (filter (\<lambda>r. \<not> suppressed r) (unsent_rows users ns))"
    by (simp add: comp_def case_prod_unfold)
  finally show ?thesis .
qed

lemma cycle_calls_sorted:
  assumes "notifications_worker_cycle send users ns e = (ns', calls, e')"
  shows "sorted (map (\<lambda>c. n_created_at (ns ! c_row c)) calls)"
proof -
  let ?R = "unsent_rows users ns"
  have "map (\<lambda>c. n_created_at (ns ! c_row c)) calls = map (\<lambda>j. n_created_at (ns ! j)) (map c_row calls)"
    by (simp add: comp_def)
  also have "\<dots> = map (\<lambda>r. n_created_at (ns ! fst r)) (filter (\<lambda>r. \<not> suppressed r) ?R)"
    by (simp add: cycle_call_rows [OF assms] comp_def)
  also have "\<dots> = map (\<lambda>(i, notif, user). n_created_at notif) (filter (\<lambda>r. \<not> suppressed r) ?R)"
  proof (rule map_cong [OF refl])
    fix r assume "r \<in> set (filter (\<lambda>r. \<not> suppressed r) ?R)"
    then have "r \<in> set ?R" by simp
    moreover obtain j notif u where "r = (j, notif, u)" by (cases r)
    ultimately show "n_created_at (ns ! fst r) = (case r of (i, notif, user) \<Rightarrow> n_created_at notif)"
      by (simp add: unsent_rows_mem)
  qed
  finally show ?thesis
    using sorted_filter [OF unsent_rows_sorted] by simp
qed

section \<open>Properties of the webhook handler\<close>

lemma validate_Inr:
  "WebhookEvent_validate data = Inr event \<longleftrightarrow>
     b_id data = Some (e_id event) \<and> b_subscription_id data = Some (e_subscription_id event)
     \<and> b_action_type data = Some (e_action_type event) \<and> b_user_id data = Some (e_user_id event)
     \<and> b_payload data = Some (e_payload event)"
  by (cases event) (auto simp: WebhookEvent_validate_def split: option.splits)

lemma validate_missing:
  "b_id data = None \<or> b_subscription_id data = None \<or> b_action_type data = None
     \<or> b_user_id data = None \<or> b_payload data = None
   \<Longrightarrow> WebhookEvent_validate data = Inl ValidationError"
  by (auto simp: WebhookEvent_validate_def split: option.splits)

lemma log_event_tables [simp]:
  "db_users (log_event l m ds d) = db_users d"
  "db_notifications (log_event l m ds d) = db_notifications d"
  by (simp_all add: log_event_def)

lemma hh_webhook_invitation:
  assumes "WebhookEvent_validate data = Inr event"
    and "e_action_type event = ustr ''NEW_RESPONSE_OR_INVITATION_VACANCY''"
    and "filter (\<lambda>u. u_hh_user_id u = Some (e_user_id event)) (db_users d) = [user]"
  shows "fst (hh_webhook lower clock data d) = Inr (PlainTextResponse (ustr ''ok'') 200)"
    and "db_users (snd (hh_webhook lower clock data d)) = db_users d"
    and "db_notifications (snd (hh_webhook lower clock data d)) = db_notifications d @
      [\<lparr>n_user_id = u_id user, n_kind = ustr ''invitation'',
        n_hh_object_id = py_or (e_payload event (ustr ''topic_id'')) (e_payload event (ustr ''chat_id'')),
        n_text = invitation_header @ py_str (e_payload event (ustr ''vacancy_id'')) @ [10]
                   @ ustr ''resume_id: '' @ py_str (e_payload event (ustr ''resume_id'')),
        n_is_rejection = False, n_sent = False,
        n_created_at = clock (length (db_notifications d))\<rparr>]"
  using assms by (simp_all add: hh_webhook_def Let_def)

section \<open>Properties of the poll ingestor\<close>

lemma dedup_step_refl: "dedup_step ns ns"
  by (simp add: dedup_step_def)

lemma dedup_step_trans:
  assumes "dedup_step a b" and "dedup_step b c"
  shows "dedup_step a c"
proof -
  from assms have "take (length a) b = a" "take (length b) c = b" "length a \<le> length b" "length b \<le> length c"
    by (simp_all add: dedup_step_def)
  then have t: "take (length a) c = a"
    by (metis min.absorb1 take_take)
  have "msg_count uid k c = msg_count uid k a \<or> (msg_count uid k a = 0 \<and> msg_count uid k c = 1)" for uid k
  proof -
    from assms(1) have 1: "msg_count uid k b = msg_count uid k a \<or> (msg_count uid k a = 0 \<and> msg_count uid k b = 1)"
      by (simp add: dedup_step_def)
    from assms(2) have 2: "msg_count uid k c = msg_count uid k b \<or> (msg_count uid k b = 0 \<and> msg_count uid k c = 1)"
      by (simp add: dedup_step_def)
    from 1 2 show ?thesis by auto
  qed
  with t \<open>length a \<le> length b\<close> \<open>length b \<le> length c\<close> show ?thesis
    by (simp add: dedup_step_def)
qed

lemma scalar_one_or_none_length:
  "scalar_one_or_none xs =
     (if length xs = 0 then Inr None else if length xs = 1 then Inr (Some (hd xs))
      else Inl MultipleResultsFound)"
  by (cases xs rule: scalar_one_or_none.cases) simp_all

lemma msg_count_snoc:
  "msg_count uid k (ns @ [n]) =
     msg_count uid k ns
       + (if n_user_id n = uid \<and> n_kind n = ustr ''message'' \<and> n_hh_object_id n = Some k then 1 else 0)"
  by (simp add: msg_count_def existing_notifications_def)

lemma poll_message_skip:
  "\<not> eligible msg \<Longrightarrow> poll_message lower clock user ns msg = Inr ns"
  by (auto simp: poll_message_def eligible_def Let_def)

lemma poll_message_eligible:
  assumes "eligible msg"
  shows "poll_message lower clock user ns msg =
     (if msg_count (u_id user) (py_str (m_id msg)) ns = 0
      then Inr (ns @ [\<lparr>n_user_id = u_id user, n_kind = ustr ''message'',
                         n_hh_object_id = Some (py_str (m_id msg)),
                         n_text = message_header @ py_strip (case m_text msg of None \<Rightarrow> [] | Some t \<Rightarrow> t),
                         n_is_rejection = classify lower (py_strip (case m_text msg of None \<Rightarrow> [] | Some t \<Rightarrow> t)),
                         n_sent = False, n_created_at = clock (length ns)\<rparr>])
      else if msg_count (u_id user) (py_str (m_id msg)) ns = 1 then Inr ns
      else Inl MultipleResultsFound)"
  using assms
  by (simp add: poll_message_def eligible_def Let_def scalar_one_or_none_length msg_count_def)

lemma poll_message_new:
  assumes "eligible msg" and "msg_count (u_id user) (py_str (m_id msg)) ns = 0"
  shows "\<exists>n. poll_message lower clock user ns msg = Inr (ns @ [n])
           \<and> n_user_id n = u_id user \<and> n_kind n = ustr ''message''
           \<and> n_hh_object_id n = Some (py_str (m_id msg)) \<and> \<not> n_sent n"
  by (simp add: poll_message_eligible [OF assms(1)] assms(2))

lemma poll_message_step:
  assumes "poll_message lower clock user ns msg = Inr ns'"
  shows "dedup_step ns ns'"
proof (cases "eligible msg")
  case False
  with assms show ?thesis by (simp add: poll_message_skip dedup_step_refl)
next
  case True
  show ?thesis
  proof (cases "msg_count (u_id user) (py_str (m_id msg)) ns = 0")
    case False
    with assms have "ns' = ns"
      by (simp add: poll_message_eligible [OF True] split: if_splits)
    then show ?thesis by (simp add: dedup_step_refl)
  next
    case z: True
    from poll_message_new [OF True z, of lower clock] assms obtain n where ns': "ns' = ns @ [n]"
      and n1: "n_user_id n = u_id user" and n2: "n_kind n = ustr ''message''"
      and n3: "n_hh_object_id n = Some (py_str (m_id msg))"
      by auto
    have "msg_count uid k (ns @ [n]) = msg_count uid k ns
            \<or> (msg_count uid k ns = 0 \<and> msg_count uid k (ns @ [n]) = 1)" for uid k
    proof (cases "uid = u_id user \<and> k = py_str (m_id msg)")
      case True
      with z show ?thesis by (simp add: msg_count_snoc n1 n2 n3)
    next
      case False
      then show ?thesis by (auto simp add: msg_count_snoc n1 n2 n3)
    qed
    then show ?thesis
      unfolding dedup_step_def ns' by simp
  qed
qed

lemma poll_message_counted:
  assumes "poll_message lower clock user ns msg = Inr ns'" and "eligible msg"
  shows "msg_count (u_id user) (py_str (m_id msg)) ns' = 1"
proof (cases "msg_count (u_id user) (py_str (m_id msg)) ns = 0")
  case True
  from poll_message_new [OF assms(2) True, of lower clock] assms(1) obtain n where "ns' = ns @ [n]"
    and "n_user_id n = u_id user" and "n_kind n = ustr ''message''"
    and "n_hh_object_id n = Some (py_str (m_id msg))"
    by auto
  with True show ?thesis by (simp add: msg_count_snoc)
next
  case False
  with assms(1) show ?thesis
    by (simp add: poll_message_eligible [OF assms(2)] split: if_splits)
qed

lemma dedup_step_keeps_one:
  assumes "dedup_step ns ns'" and "msg_count uid k ns = 1"
  shows "msg_count uid k ns' = 1"
proof -
  from assms(1) have "msg_count uid k ns' = msg_count uid k ns
       \<or> (msg_count uid k ns = 0 \<and> msg_count uid k ns' = 1)"
    by (simp add: dedup_step_def)
  with assms(2) show ?thesis by simp
qed

lemma poll_messages_step:
  "poll_messages lower clock user ns msgs = Inr ns' \<Longrightarrow> dedup_step ns ns'"
proof (induction msgs arbitrary: ns)
  case Nil
  then show ?case by (simp add: dedup_step_refl)
next
  case (Cons msg msgs)
  then obtain ns1 where 1: "poll_message lower clock user ns msg = Inr ns1"
    and 2: "poll_messages lower clock user ns1 msgs = Inr ns'"
    by (auto split: sum.splits)
  from poll_message_step [OF 1] Cons.IH [OF 2] show ?case
    by (rule dedup_step_trans)
qed

lemma poll_messages_counted:
  "poll_messages lower clock user ns msgs = Inr ns' \<Longrightarrow> msg \<in> set msgs \<Longrightarrow> eligible msg
   \<Longrightarrow> msg_count (u_id user) (py_str (m_id msg)) ns' = 1"
proof (induction msgs arbitrary: ns)
  case Nil
  then show ?case by simp
next
  case (Cons m msgs)
  from Cons.prems(1) obtain ns1 where 1: "poll_message lower clock user ns m = Inr ns1"
    and 2: "poll_messages lower clock user ns1 msgs = Inr ns'"
    by (auto split: sum.splits)
  show ?case
  proof (cases "msg \<in> set msgs")
    case True
    with Cons.IH [OF 2] Cons.prems(3) show ?thesis by simp
  next
    case False
    with Cons.prems(2) have "msg = m" by simp
    with poll_message_counted [OF 1] Cons.prems(3)
    have "msg_count (u_id user) (py_str (m_id msg)) ns1 = 1" by simp
    with poll_messages_step [OF 2] show ?thesis by (rule dedup_step_keeps_one)
  qed
qed

lemma poll_messages_noop:
  "(\<And>msg. msg \<in> set msgs \<Longrightarrow> eligible msg \<Longrightarrow> msg_count (u_id user) (py_str (m_id msg)) ns = 1)
   \<Longrightarrow> poll_messages lower clock user ns msgs = Inr ns"
proof (induction msgs)
  case Nil
  show ?case by simp
next
  case (Cons m msgs)
  have "poll_message lower clock user ns m = Inr ns"
  proof (cases "eligible m")
    case True
    with Cons.prems [of m] show ?thesis by (simp add: poll_message_eligible)
  next
    case False
    then show ?thesis by (simp add: poll_message_skip)
  qed
  moreover have "poll_messages lower clock user ns msgs = Inr ns"
    using Cons.IH Cons.prems by simp
  ultimately show ?case by simp
qed

lemma poll_messages_append:
  "poll_messages lower clock user ns (xs @ ys) =
     (case poll_messages lower clock user ns xs of
        Inl err \<Rightarrow> Inl err
      | Inr ns' \<Rightarrow> poll_messages lower clock user ns' ys)"
  by (induction xs arbitrary: ns) (auto split: sum.splits)

lemma poll_negotiations_flat:
  "poll_negotiations lower clock up user token ns negs =
     poll_messages lower clock user ns (concat (map (negotiation_messages up token) negs))"
proof (induction negs arbitrary: ns)
  case Nil
  show ?case by simp
next
  case (Cons neg negs)
  show ?case
    by (simp add: negotiation_messages_def poll_messages_append Cons.IH
          split: option.splits fetch.splits sum.splits)
qed

lemma poll_users_Cons:
  "poll_users lower clock up ns (user # users) =
     (case poll_messages lower clock user ns (user_messages up user) of
        Inl err \<Rightarrow> (Some err, ns)
      | Inr ns' \<Rightarrow> poll_users lower clock up ns' users)"
  by (simp add: user_messages_def poll_negotiations_flat split: option.splits fetch.splits sum.splits)

lemma same_rows_refl: "same_rows ns ns"
  by (simp add: same_rows_def)

lemma same_rows_msg_count:
  assumes "same_rows ns ns2"
  shows "msg_count uid k ns = msg_count uid k ns2"
proof -
  let ?P = "\<lambda>n. n_user_id n = uid \<and> n_kind n = ustr ''message'' \<and> n_hh_object_id n = Some k"
  let ?f = "\<lambda>n. n\<lparr>n_created_at := 0\<rparr>"
  have c: "length (filter ?P xs) = length (filter ?P (map ?f xs))" for xs
    by (induction xs) simp_all
  from assms have "map ?f ns = map ?f ns2" by (simp add: same_rows_def)
  with c [of ns] c [of ns2] show ?thesis
    by (simp add: msg_count_def existing_notifications_def)
qed

lemma poll_message_clock:
  assumes "same_rows ns ns2"
  shows "rel_sum (=) same_rows (poll_message lower clock user ns msg) (poll_message lower clock' user ns2 msg)"
proof (cases "eligible msg")
  case False
  with assms show ?thesis by (simp add: poll_message_skip)
next
  case True
  have c: "msg_count (u_id user) (py_str (m_id msg)) ns = msg_count (u_id user) (py_str (m_id msg)) ns2"
    by (rule same_rows_msg_count [OF assms])
  show ?thesis
    using assms by (simp add: poll_message_eligible [OF True] c [symmetric]) (simp add: same_rows_def)
qed

lemma poll_messages_clock:
  "same_rows ns ns2 \<Longrightarrow>
   rel_sum (=) same_rows (poll_messages lower clock user ns msgs) (poll_messages lower clock' user ns2 msgs)"
proof (induction msgs arbitrary: ns ns2)
  case Nil
  then show ?case by simp
next
  case (Cons msg msgs)
  from poll_message_clock [OF Cons.prems, of lower clock user msg clock']
  show ?case
    by (cases "poll_message lower clock user ns msg"; cases "poll_message lower clock' user ns2 msg")
       (simp_all add: Cons.IH)
qed

lemma poll_messages_clock_error:
  assumes "poll_messages lower clock user ns msgs = Inl e"
  shows "poll_messages lower clock' user ns msgs = Inl e"
  using poll_messages_clock [OF same_rows_refl, of lower clock user ns msgs clock'] assms
  by (cases "poll_messages lower clock' user ns msgs") simp_all

lemma poll_users_step: "dedup_step ns (snd (poll_users lower clock up ns users))"
proof (induction users arbitrary: ns)
  case Nil
  show ?case by (simp add: dedup_step_refl)
next
  case (Cons user users)
  show ?case
  proof (cases "poll_messages lower clock user ns (user_messages up user)")
    case (Inl err)
    then show ?thesis by (simp add: poll_users_Cons dedup_step_refl del: poll_users.simps)
  next
    case (Inr ns1)
    from poll_messages_step [OF Inr] Cons.IH [of ns1] show ?thesis
      by (simp add: poll_users_Cons Inr del: poll_users.simps) (rule dedup_step_trans)
  qed
qed

lemma poll_users_idem:
  "poll_users lower clock up ns users = (err, ns') \<Longrightarrow> poll_users lower clock' up ns' users = (err, ns')"
proof (induction users arbitrary: ns)
  case Nil
  then show ?case by simp
next
  case (Cons user users)
  show ?case
  proof (cases "poll_messages lower clock user ns (user_messages up user)")
    case (Inl e)
    with Cons.prems have eq: "err = Some e" "ns' = ns"
      by (simp_all add: poll_users_Cons del: poll_users.simps)
    have "poll_messages lower clock' user ns (user_messages up user) = Inl e"
      using Inl by (rule poll_messages_clock_error)
    then show ?thesis by (simp add: poll_users_Cons eq del: poll_users.simps)
  next
    case (Inr ns1)
    with Cons.prems have rest: "poll_users lower clock up ns1 users = (err, ns')"
      by (simp add: poll_users_Cons del: poll_users.simps)
    from poll_users_step [of ns1 lower clock up users] rest have st: "dedup_step ns1 ns'" by simp
    have "poll_messages lower clock' user ns' (user_messages up user) = Inr ns'"
    proof (rule poll_messages_noop)
      fix msg assume "msg \<in> set (user_messages up user)" "eligible msg"
      with poll_messages_counted [OF Inr] have "msg_count (u_id user) (py_str (m_id msg)) ns1 = 1"
        by simp
      with st show "msg_count (u_id user) (py_str (m_id msg)) ns' = 1"
        by (rule dedup_step_keeps_one)
    qed
    with Cons.IH [OF rest] show ?thesis by (simp add: poll_users_Cons del: poll_users.simps)
  qed
qed

lemma dedup_step_unique:
  assumes "dedup_step ns ns'" and "unique_messages ns"
  shows "unique_messages ns'"
  unfolding unique_messages_def
proof (intro allI)
  fix uid k
  from assms(1) have "msg_count uid k ns' = msg_count uid k ns
       \<or> (msg_count uid k ns = 0 \<and> msg_count uid k ns' = 1)"
    by (simp add: dedup_step_def)
  moreover from assms(2) have "msg_count uid k ns \<le> 1" by (simp add: unique_messages_def)
  ultimately show "msg_count uid k ns' \<le> 1" by auto
qed

lemma poll_messages_unique_ok:
  "unique_messages ns \<Longrightarrow> \<exists>ns'. poll_messages lower clock user ns msgs = Inr ns'"
proof (induction msgs arbitrary: ns)
  case Nil
  show ?case by simp
next
  case (Cons msg msgs)
  have "\<exists>ns1. poll_message lower clock user ns msg = Inr ns1"
  proof (cases "eligible msg")
    case True
    from Cons.prems have "msg_count (u_id user) (py_str (m_id msg)) ns \<le> 1"
      by (simp add: unique_messages_def)
    then show ?thesis by (simp add: poll_message_eligible [OF True])
  next
    case False
    then show ?thesis by (simp add: poll_message_skip)
  qed
  then obtain ns1 where 1: "poll_message lower clock user ns msg = Inr ns1" by blast
  from poll_message_step [OF 1] Cons.prems have "unique_messages ns1"
    by (rule dedup_step_unique)
  from Cons.IH [OF this] 1 show ?case by simp
qed

lemma poll_users_unique:
  "unique_messages ns \<Longrightarrow>
   fst (poll_users lower clock up ns users) = None
   \<and> unique_messages (snd (poll_users lower clock up ns users))
   \<and> (\<forall>user \<in> set users. \<forall>msg \<in> set (user_messages up user). eligible msg \<longrightarrow>
         msg_count (u_id user) (py_str (m_id msg)) (snd (poll_users lower clock up ns users)) = 1)"
proof (induction users arbitrary: ns)
  case Nil
  then show ?case by simp
next
  case (Cons u users)
  from poll_messages_unique_ok [OF Cons.prems] obtain ns1
    where 1: "poll_messages lower clock u ns (user_messages up u) = Inr ns1"
    by blast
  have eq: "poll_users lower clock up ns (u # users) = poll_users lower clock up ns1 users"
    by (simp add: poll_users_Cons 1 del: poll_users.simps)
  from poll_messages_step [OF 1] Cons.prems have u1: "unique_messages ns1"
    by (rule dedup_step_unique)
  note IH = Cons.IH [OF u1]
  have head: "msg_count (u_id u) (py_str (m_id msg)) (snd (poll_users lower clock up ns1 users)) = 1"
    if "msg \<in> set (user_messages up u)" "eligible msg" for msg
  proof -
    from poll_messages_counted [OF 1 that] have "msg_count (u_id u) (py_str (m_id msg)) ns1 = 1" .
    with poll_users_step [of ns1 lower clock up users] show ?thesis
      by (rule dedup_step_keeps_one)
  qed
  from IH head show ?case
    unfolding eq by auto
qed

lemma user_messages_no_token:
  "u_hh_access_token user = None \<Longrightarrow> user_messages up user = []"
  by (simp add: user_messages_def)

lemma sample_user_messages:
  "user_messages sample_upstream user_b
     = [msg_outbound, msg_inbound, msg_idless (ustr ''first''), msg_idless (ustr ''second'')]"
  by (simp add: user_messages_def negotiation_messages_def sample_upstream_def user_b_def
        py_or_def truthy_def ustr_def)

lemma sample_cycle:
  "hh_messages_cycle lower_basic (\<lambda>k. 7 + k) sample_upstream [user_a, user_b] []
     = (None, [message_row 2 (ustr ''m2'') (ustr ''hello'') 7,
               message_row 2 (ustr ''None'') (ustr ''first'') 8])"
  by (simp add: hh_messages_cycle_def poll_users_Cons user_messages_def negotiation_messages_def
        sample_upstream_def user_a_def user_b_def py_or_def truthy_def 
        msg_outbound_def msg_inbound_def msg_idless_def poll_message_def Let_def
        py_strip_def py_isspace_def py_str_def existing_notifications_def message_row_def
        classify_def REJECTION_PATTERNS_def lower_basic_def lower_cp_def ustr_def
        del: poll_users.simps(2))

lemma hh_messages_cycle_idem:
  assumes "hh_messages_cycle lower clock up users ns = (err, ns1)"
  shows "hh_messages_cycle lower clock' up users ns1 = (err, ns1)"
  using assms unfolding hh_messages_cycle_def by (rule poll_users_idem)

lemma hh_messages_cycle_step:
  "dedup_step ns (snd (hh_messages_cycle lower clock up users ns))"
  unfolding hh_messages_cycle_def by (rule poll_users_step)

lemma unique_messages_Nil: "unique_messages []"
  by (simp add: unique_messages_def msg_count_def existing_notifications_def)

lemma sample_eligible: "eligible msg_inbound"
  by (simp add: eligible_def msg_inbound_def py_strip_def py_isspace_def ustr_def)

lemma hh_webhook_prefix:
  "take (length (db_notifications d)) (db_notifications (snd (hh_webhook lower clock data d)))
     = db_notifications d"
proof (cases "WebhookEvent_validate data")
  case (Inl err)
  then show ?thesis by (simp add: hh_webhook_def)
next
  case (Inr event)
  show ?thesis
  proof (cases "scalar_one_or_none (filter (\<lambda>u. u_hh_user_id u = Some (e_user_id event)) (db_users d))")
    case (Inl err)
    with Inr show ?thesis by (simp add: hh_webhook_def Let_def)
  next
    case found: (Inr r)
    show ?thesis
    proof (cases r)
      case None
      with Inr found show ?thesis by (simp add: hh_webhook_def Let_def)
    next
      case (Some user)
      with Inr found show ?thesis by (simp add: hh_webhook_def Let_def)
    qed
  qed
qed

lemma cycle_fields:
  assumes "i < length ns"
  shows "fst (notifications_worker_cycle send users ns e) ! i
           = (ns ! i)\<lparr>n_sent := n_sent (fst (notifications_worker_cycle send users ns e) ! i)\<rparr>"
    and "n_sent (ns ! i) \<longrightarrow> n_sent (fst (notifications_worker_cycle send users ns e) ! i)"
proof -
  show "fst (notifications_worker_cycle send users ns e) ! i
           = (ns ! i)\<lparr>n_sent := n_sent (fst (notifications_worker_cycle send users ns e) ! i)\<rparr>"
    unfolding notifications_worker_cycle_def by (rule deliver_fields [OF assms])
  show "n_sent (ns ! i) \<longrightarrow> n_sent (fst (notifications_worker_cycle send users ns e) ! i)"
    unfolding notifications_worker_cycle_def
    by (simp add: deliver_sent [OF assms, of send "unsent_rows users ns" e])
qed

section \<open>The classifier\<close>

text \<open>
  C3. The text classifier answers true for every input whose lower-cased form contains a
  phrase of the rejection-phrase list as a contiguous substring, false for every input
  whose lower-cased form contains none of them, and false for the empty string (which
  \<open>str.lower\<close> maps to itself).
\<close>

theorem classify_rejection_phrases:
  "((\<exists>p \<in> set REJECTION_PATTERNS. \<exists>xs ys. lower s = xs @ p @ ys) \<longrightarrow> classify lower s)
   \<and> ((\<forall>p \<in> set REJECTION_PATTERNS. \<not> (\<exists>xs ys. lower s = xs @ p @ ys)) \<longrightarrow> \<not> classify lower s)
   \<and> (lower [] = [] \<longrightarrow> \<not> classify lower [])"
proof -
  have eq: "classify lower t \<longleftrightarrow> (\<exists>p \<in> set REJECTION_PATTERNS. \<exists>xs ys. lower t = xs @ p @ ys)" for t
    by (simp add: classify_def py_any_iff py_in_iff)
  have "\<not> classify lower []" if "lower [] = []"
    using that by (simp add: classify_def py_any_iff REJECTION_PATTERNS_def)
  with eq show ?thesis by blast
qed

theorem classify_rejection_phrases_witness:
  "(\<exists>p \<in> set REJECTION_PATTERNS. \<exists>xs ys. lower_basic [1054, 1058, 1050, 1040, 1047] = xs @ p @ ys)
   \<and> classify lower_basic [1054, 1058, 1050, 1040, 1047]
   \<and> \<not> (\<exists>p \<in> set REJECTION_PATTERNS. \<exists>xs ys. lower_basic (ustr ''Thank you'') = xs @ p @ ys)
   \<and> \<not> classify lower_basic (ustr ''Thank you'')
   \<and> lower_basic [] = []
   \<and> \<not> classify lower_basic []"
proof -
  have h1: "\<exists>p \<in> set REJECTION_PATTERNS. \<exists>xs ys. lower_basic [1054, 1058, 1050, 1040, 1047] = xs @ p @ ys"
    by (simp add: py_in_iff [symmetric] REJECTION_PATTERNS_def lower_basic_def lower_cp_def)
  have h2: "\<forall>p \<in> set REJECTION_PATTERNS. \<not> (\<exists>xs ys. lower_basic (ustr ''Thank you'') = xs @ p @ ys)"
    by (simp add: py_in_iff [symmetric] REJECTION_PATTERNS_def lower_basic_def lower_cp_def ustr_def)
  have h3: "lower_basic [] = []"
    by (simp add: lower_basic_def)
  from classify_rejection_phrases [of lower_basic "[1054, 1058, 1050, 1040, 1047]"] h1
  have c1: "classify lower_basic [1054, 1058, 1050, 1040, 1047]" by blast
  from classify_rejection_phrases [of lower_basic "ustr ''Thank you''"] h2
  have c2: "\<not> classify lower_basic (ustr ''Thank you'')" by blast
  from classify_rejection_phrases [of lower_basic "[]"] h3
  have c3: "\<not> classify lower_basic []" by blast
  from h1 h2 h3 c1 c2 c3 show ?thesis by blast
qed

section \<open>The delivery worker\<close>

text \<open>
  C1. Users have distinct primary keys. For a notification that is unsent and a rejection,
  and whose owning user has \<open>mute_rejections\<close> set, one cycle of the delivery worker leaves
  the record with \<open>sent = True\<close> and makes no call of the messaging endpoint for it; when
  the owning user has \<open>mute_rejections\<close> unset, the cycle makes a delivery call for it, to
  the user's chat with the notification's text.
\<close>

theorem mute_semantics:
  assumes "distinct (map u_id users)"
    and "i < length ns" and "\<not> n_sent (ns ! i)" and "n_is_rejection (ns ! i)"
    and "user \<in> set users" and "u_id user = n_user_id (ns ! i)"
    and "notifications_worker_cycle send users ns e = (ns', calls, e')"
  shows "(u_mute_rejections user \<longrightarrow> n_sent (ns' ! i) \<and> (\<forall>c \<in> set calls. c_row c \<noteq> i))
     \<and> (\<not> u_mute_rejections user \<longrightarrow>
          (\<exists>c \<in> set calls. c_row c = i \<and> c_chat c = u_telegram_id user \<and> c_text c = n_text (ns ! i)))"
proof (intro conjI impI)
  assume m: "u_mute_rejections user"
  with assms(4) have s: "suppressed (i, ns ! i, user)" by (simp add: suppressed_def)
  have "(i, ns ! i, user) \<in> set (unsent_rows users ns)"
    using assms(2,3,5,6) by (simp add: unsent_rows_mem)
  with s show "n_sent (ns' ! i)"
    using cycle_sent [OF assms(2,7)] by force
  from cycle_calls_for_row [OF assms(1,2,3,5,6,7)] s
  have "filter (\<lambda>c. c_row c = i) calls = []" by simp
  then show "\<forall>c \<in> set calls. c_row c \<noteq> i"
    by (simp add: filter_empty_conv)
next
  assume "\<not> u_mute_rejections user"
  then have "\<not> suppressed (i, ns ! i, user)" by (simp add: suppressed_def)
  with cycle_calls_for_row [OF assms(1,2,3,5,6,7)]
  have "map (\<lambda>c. (c_row c, c_chat c, c_text c)) (filter (\<lambda>c. c_row c = i) calls)
          = [(i, u_telegram_id user, n_text (ns ! i))]" by simp
  then obtain c where c: "filter (\<lambda>c. c_row c = i) calls = [c]"
    and "(c_row c, c_chat c, c_text c) = (i, u_telegram_id user, n_text (ns ! i))"
    by (auto simp: map_eq_Cons_conv)
  moreover have "c \<in> set calls"
  proof -
    have "c \<in> set (filter (\<lambda>c. c_row c = i) calls)" by (simp add: c)
    then show ?thesis by simp
  qed
  ultimately show "\<exists>c \<in> set calls. c_row c = i \<and> c_chat c = u_telegram_id user \<and> c_text c = n_text (ns ! i)"
    by auto
qed

theorem mute_semantics_witness:
  "notifications_worker_cycle (send_except 0) [user_a, user_b]
       [pending 1 (ustr ''x'') True 5, pending 2 (ustr ''y'') True 6] ()
     = ([(pending 1 (ustr ''x'') True 5)\<lparr>n_sent := True\<rparr>,
         (pending 2 (ustr ''y'') True 6)\<lparr>n_sent := True\<rparr>],
        [\<lparr>c_row = 1, c_chat = 102, c_text = ustr ''y'', c_ok = True\<rparr>], ())
   \<and> n_sent ([(pending 1 (ustr ''x'') True 5)\<lparr>n_sent := True\<rparr>,
               (pending 2 (ustr ''y'') True 6)\<lparr>n_sent := True\<rparr>] ! 0)
   \<and> \<not> (\<exists>c \<in> set [\<lparr>c_row = 1, c_chat = 102, c_text = ustr ''y'', c_ok = True\<rparr>]. c_row c = 0)
   \<and> (\<exists>c \<in> set [\<lparr>c_row = 1, c_chat = 102, c_text = ustr ''y'', c_ok = True\<rparr>].
         c_row c = 1 \<and> c_chat c = 102 \<and> c_text c = ustr ''y'')"
proof -
  let ?users = "[user_a, user_b]"
  let ?ns = "[pending 1 (ustr ''x'') True 5, pending 2 (ustr ''y'') True 6]"
  let ?ns' = "[(pending 1 (ustr ''x'') True 5)\<lparr>n_sent := True\<rparr>,
               (pending 2 (ustr ''y'') True 6)\<lparr>n_sent := True\<rparr>]"
  let ?calls = "[\<lparr>c_row = 1, c_chat = 102, c_text = ustr ''y'', c_ok = True\<rparr>]"
  have cyc: "notifications_worker_cycle (send_except 0) ?users ?ns () = (?ns', ?calls, ())"
    by (simp add: notifications_worker_cycle_def unsent_rows_def user_a_def user_b_def pending_def
          send_except_def mark_sent_def)
  have d: "distinct (map u_id ?users)"
    by (simp add: user_a_def user_b_def)
  have a: "n_sent (?ns' ! 0) \<and> (\<forall>c \<in> set ?calls. c_row c \<noteq> 0)"
    using mute_semantics [OF d _ _ _ _ _ cyc, of 0 user_a]
    by (simp add: user_a_def pending_def)
  have b: "\<exists>c \<in> set ?calls. c_row c = 1 \<and> c_chat c = 102 \<and> c_text c = ustr ''y''"
    using mute_semantics [OF d _ _ _ _ _ cyc, of 1 user_b]
    by (simp add: user_b_def pending_def)
  from cyc a b show ?thesis by blast
qed

text \<open>
  C4. The rows of one cycle are selected in ascending order of creation time and the
  delivery calls are made in that order. In particular, for three unsent notifications of
  one user that are delivered (not suppressed rejections), created at times
  \<open>t1 < t2 < t3\<close>, the calls made for them are exactly one call each, in that order.
\<close>

theorem delivery_order:
  assumes "notifications_worker_cycle send users ns e = (ns', calls, e')"
  shows "sorted (map (\<lambda>(i, notif, user). n_created_at notif) (unsent_rows users ns))
     \<and> sorted (map (\<lambda>c. n_created_at (ns ! c_row c)) calls)
     \<and> (distinct (map u_id users) \<and> user \<in> set users
          \<and> (\<forall>i \<in> {i1, i2, i3}. i < length ns \<and> \<not> n_sent (ns ! i) \<and> n_user_id (ns ! i) = u_id user
                \<and> \<not> (n_is_rejection (ns ! i) \<and> u_mute_rejections user))
          \<and> n_created_at (ns ! i1) < n_created_at (ns ! i2)
          \<and> n_created_at (ns ! i2) < n_created_at (ns ! i3)
        \<longrightarrow> map c_row (filter (\<lambda>c. c_row c \<in> {i1, i2, i3}) calls) = [i1, i2, i3])"
proof (intro conjI impI)
  show "sorted (map (\<lambda>(i, notif, user). n_created_at notif) (unsent_rows users ns))"
    by (rule unsent_rows_sorted)
  show "sorted (map (\<lambda>c. n_created_at (ns ! c_row c)) calls)"
    by (rule cycle_calls_sorted [OF assms])
next
  let ?R = "unsent_rows users ns"
  let ?S = "{i1, i2, i3}"
  let ?f = "\<lambda>(i, notif, user). n_created_at notif"
  let ?L = "filter (\<lambda>r. fst r \<in> ?S) (filter (\<lambda>r. \<not> suppressed r) ?R)"
  assume h: "distinct (map u_id users) \<and> user \<in> set users
          \<and> (\<forall>i \<in> {i1, i2, i3}. i < length ns \<and> \<not> n_sent (ns ! i) \<and> n_user_id (ns ! i) = u_id user
                \<and> \<not> (n_is_rejection (ns ! i) \<and> u_mute_rejections user))
          \<and> n_created_at (ns ! i1) < n_created_at (ns ! i2)
          \<and> n_created_at (ns ! i2) < n_created_at (ns ! i3)"
  then have du: "distinct (map u_id users)" and uin: "user \<in> set users"
    and t12: "n_created_at (ns ! i1) < n_created_at (ns ! i2)"
    and t23: "n_created_at (ns ! i2) < n_created_at (ns ! i3)"
    by simp_all
  from h have each: "i < length ns \<and> \<not> n_sent (ns ! i) \<and> n_user_id (ns ! i) = u_id user
                \<and> \<not> (n_is_rejection (ns ! i) \<and> u_mute_rejections user)" if "i \<in> ?S" for i
    using that by blast
  have inj: "inj_on u_id (set users)" using du by (simp add: distinct_map)
  have mem: "r \<in> set ?L \<longleftrightarrow> (\<exists>i \<in> ?S. r = (i, ns ! i, user))" for r
  proof -
    obtain j notif u where r: "r = (j, notif, u)" by (cases r)
    show ?thesis
    proof
      assume "r \<in> set ?L"
      with r have j: "j \<in> ?S" and m: "(j, notif, u) \<in> set ?R" by simp_all
      from m have "notif = ns ! j" "u \<in> set users" "u_id u = n_user_id (ns ! j)"
        by (simp_all add: unsent_rows_mem)
      moreover from each [OF j] have "n_user_id (ns ! j) = u_id user" by simp
      ultimately have "u = user" using inj uin by (simp add: inj_on_def)
      with r j \<open>notif = ns ! j\<close> show "\<exists>i \<in> ?S. r = (i, ns ! i, user)" by blast
    next
      assume "\<exists>i \<in> ?S. r = (i, ns ! i, user)"
      then obtain i where i: "i \<in> ?S" and ri: "r = (i, ns ! i, user)" by blast
      from each [OF i] uin have "(i, ns ! i, user) \<in> set ?R" "\<not> suppressed (i, ns ! i, user)"
        by (simp_all add: unsent_rows_mem suppressed_def)
      with i ri show "r \<in> set ?L" by simp
    qed
  qed
  have "?L = [(i1, ns ! i1, user), (i2, ns ! i2, user), (i3, ns ! i3, user)]"
  proof (rule sorted_three [where f = ?f])
    show "sorted (map ?f ?L)"
      by (intro sorted_filter unsent_rows_sorted)
    show "distinct ?L"
      using unsent_rows_distinct [OF du] by simp
    show "set ?L = {(i1, ns ! i1, user), (i2, ns ! i2, user), (i3, ns ! i3, user)}"
      using mem by blast
    show "?f (i1, ns ! i1, user) < ?f (i2, ns ! i2, user)" using t12 by simp
    show "?f (i2, ns ! i2, user) < ?f (i3, ns ! i3, user)" using t23 by simp
  qed
  moreover have "map c_row (filter (\<lambda>c. c_row c \<in> ?S) calls) = map fst ?L"
  proof -
    have "map c_row (filter (\<lambda>c. c_row c \<in> ?S) calls) = filter (\<lambda>j. j \<in> ?S) (map c_row calls)"
      by (simp add: filter_map comp_def)
    also have "\<dots> = filter (\<lambda>j. j \<in> ?S) (map fst (filter (\<lambda>r. \<not> suppressed r) ?R))"
      by (simp only: cycle_call_rows [OF assms])
    also have "\<dots> = map fst ?L"
      by (simp add: filter_map comp_def)
    finally show ?thesis .
  qed
  ultimately show "map c_row (filter (\<lambda>c. c_row c \<in> ?S) calls) = [i1, i2, i3]"
    by simp
qed

theorem delivery_order_witness:
  "notifications_worker_cycle (send_except 0) [user_b]
       [pending 2 (ustr ''c'') False 7, pending 2 (ustr ''a'') False 3, pending 2 (ustr ''b'') False 5] ()
     = ([(pending 2 (ustr ''c'') False 7)\<lparr>n_sent := True\<rparr>,
         (pending 2 (ustr ''a'') False 3)\<lparr>n_sent := True\<rparr>,
         (pending 2 (ustr ''b'') False 5)\<lparr>n_sent := True\<rparr>],
        [\<lparr>c_row = 1, c_chat = 102, c_text = ustr ''a'', c_ok = True\<rparr>,
         \<lparr>c_row = 2, c_chat = 102, c_text = ustr ''b'', c_ok = True\<rparr>,
         \<lparr>c_row = 0, c_chat = 102, c_text = ustr ''c'', c_ok = True\<rparr>], ())
   \<and> map c_row (filter (\<lambda>c. c_row c \<in> {1, 2, 0})
        [\<lparr>c_row = 1, c_chat = 102, c_text = ustr ''a'', c_ok = True\<rparr>,
         \<lparr>c_row = 2, c_chat = 102, c_text = ustr ''b'', c_ok = True\<rparr>,
         \<lparr>c_row = 0, c_chat = 102, c_text = ustr ''c'', c_ok = True\<rparr>]) = [1, 2, 0]"
proof -
  let ?ns = "[pending 2 (ustr ''c'') False 7, pending 2 (ustr ''a'') False 3,
              pending 2 (ustr ''b'') False 5]"
  let ?ns' = "[(pending 2 (ustr ''c'') False 7)\<lparr>n_sent := True\<rparr>,
               (pending 2 (ustr ''a'') False 3)\<lparr>n_sent := True\<rparr>,
               (pending 2 (ustr ''b'') False 5)\<lparr>n_sent := True\<rparr>]"
  let ?calls = "[\<lparr>c_row = 1, c_chat = 102, c_text = ustr ''a'', c_ok = True\<rparr>,
                 \<lparr>c_row = 2, c_chat = 102, c_text = ustr ''b'', c_ok = True\<rparr>,
                 \<lparr>c_row = 0, c_chat = 102, c_text = ustr ''c'', c_ok = True\<rparr>]"
  have cyc: "notifications_worker_cycle (send_except 0) [user_b] ?ns () = (?ns', ?calls, ())"
    by (simp add: notifications_worker_cycle_def unsent_rows_def user_b_def pending_def
          send_except_def mark_sent_def)
  have h: "distinct (map u_id [user_b]) \<and> user_b \<in> set [user_b]
          \<and> (\<forall>i \<in> {1, 2, 0}. i < length ?ns \<and> \<not> n_sent (?ns ! i) \<and> n_user_id (?ns ! i) = u_id user_b
                \<and> \<not> (n_is_rejection (?ns ! i) \<and> u_mute_rejections user_b))
          \<and> n_created_at (?ns ! 1) < n_created_at (?ns ! 2)
          \<and> n_created_at (?ns ! 2) < n_created_at (?ns ! 0)"
    by (simp add: user_b_def pending_def)
  from delivery_order [OF cyc, of user_b 1 2 0] h
  have "map c_row (filter (\<lambda>c. c_row c \<in> {1, 2, 0}) ?calls) = [1, 2, 0]"
    by blast
  with cyc show ?thesis by blast
qed

text \<open>
  C5. Users have distinct primary keys. Every unsent notification with an owning user
  that is not a suppressed rejection gets exactly one delivery call in the cycle, whatever
  the outcome of the other calls, and its \<open>sent\<close> field after the cycle is the outcome of
  its own call: a call that raises leaves it unsent for the next cycle, a call that
  returns marks it sent.
\<close>

theorem partial_failure_isolation:
  assumes "distinct (map u_id users)"
    and "i < length ns" and "\<not> n_sent (ns ! i)"
    and "user \<in> set users" and "u_id user = n_user_id (ns ! i)"
    and "\<not> (n_is_rejection (ns ! i) \<and> u_mute_rejections user)"
    and "notifications_worker_cycle send users ns e = (ns', calls, e')"
  shows "\<exists>c. filter (\<lambda>c. c_row c = i) calls = [c]
           \<and> c_chat c = u_telegram_id user \<and> c_text c = n_text (ns ! i)
           \<and> n_sent (ns' ! i) = c_ok c"
  using assms by (rule cycle_own_call)

theorem partial_failure_isolation_witness:
  "notifications_worker_cycle (send_except 101) [user_a, user_b]
       [pending 1 (ustr ''x'') False 5, pending 2 (ustr ''y'') False 6] ()
     = ([pending 1 (ustr ''x'') False 5, (pending 2 (ustr ''y'') False 6)\<lparr>n_sent := True\<rparr>],
        [\<lparr>c_row = 0, c_chat = 101, c_text = ustr ''x'', c_ok = False\<rparr>,
         \<lparr>c_row = 1, c_chat = 102, c_text = ustr ''y'', c_ok = True\<rparr>], ())
   \<and> (\<exists>c. filter (\<lambda>c. c_row c = 0)
              [\<lparr>c_row = 0, c_chat = 101, c_text = ustr ''x'', c_ok = False\<rparr>,
               \<lparr>c_row = 1, c_chat = 102, c_text = ustr ''y'', c_ok = True\<rparr>] = [c]
          \<and> c_chat c = u_telegram_id user_a \<and> c_text c = ustr ''x''
          \<and> n_sent ([pending 1 (ustr ''x'') False 5,
                      (pending 2 (ustr ''y'') False 6)\<lparr>n_sent := True\<rparr>] ! 0) = c_ok c)
   \<and> (\<exists>c. filter (\<lambda>c. c_row c = 1)
              [\<lparr>c_row = 0, c_chat = 101, c_text = ustr ''x'', c_ok = False\<rparr>,
               \<lparr>c_row = 1, c_chat = 102, c_text = ustr ''y'', c_ok = True\<rparr>] = [c]
          \<and> c_chat c = u_telegram_id user_b \<and> c_text c = ustr ''y''
          \<and> n_sent ([pending 1 (ustr ''x'') False 5,
                      (pending 2 (ustr ''y'') False 6)\<lparr>n_sent := True\<rparr>] ! 1) = c_ok c)"
proof -
  let ?users = "[user_a, user_b]"
  let ?ns = "[pending 1 (ustr ''x'') False 5, pending 2 (ustr ''y'') False 6]"
  let ?ns' = "[pending 1 (ustr ''x'') False 5, (pending 2 (ustr ''y'') False 6)\<lparr>n_sent := True\<rparr>]"
  let ?calls = "[\<lparr>c_row = 0, c_chat = 101, c_text = ustr ''x'', c_ok = False\<rparr>,
                 \<lparr>c_row = 1, c_chat = 102, c_text = ustr ''y'', c_ok = True\<rparr>]"
  have cyc: "notifications_worker_cycle (send_except 101) ?users ?ns () = (?ns', ?calls, ())"
    by (simp add: notifications_worker_cycle_def unsent_rows_def user_a_def user_b_def pending_def
          send_except_def mark_sent_def)
  have d: "distinct (map u_id ?users)"
    by (simp add: user_a_def user_b_def)
  have a: "\<exists>c. filter (\<lambda>c. c_row c = 0) ?calls = [c]
          \<and> c_chat c = u_telegram_id user_a \<and> c_text c = ustr ''x'' \<and> n_sent (?ns' ! 0) = c_ok c"
    using partial_failure_isolation [OF d _ _ _ _ _ cyc, of 0 user_a]
    by (simp add: user_a_def pending_def)
  have b: "\<exists>c. filter (\<lambda>c. c_row c = 1) ?calls = [c]
          \<and> c_chat c = u_telegram_id user_b \<and> c_text c = ustr ''y'' \<and> n_sent (?ns' ! 1) = c_ok c"
    using partial_failure_isolation [OF d _ _ _ _ _ cyc, of 1 user_b]
    by (simp add: user_b_def pending_def)
  from cyc a b show ?thesis by blast
qed

section \<open>The webhook ingestor\<close>

text \<open>
  C6. A structurally valid webhook event (all five fields present) whose \<open>user_id\<close> is the
  \<open>hh_user_id\<close> of no user is answered with the plain-text response \<open>unknown user\<close> of
  status 200, and the notifications table is unchanged.
\<close>

theorem webhook_unknown_user:
  assumes "WebhookEvent_validate data = Inr event"
    and "\<forall>u \<in> set (db_users d). u_hh_user_id u \<noteq> Some (e_user_id event)"
  shows "fst (hh_webhook lower clock data d) = Inr (PlainTextResponse (ustr ''unknown user'') 200)
     \<and> status_code (fst (hh_webhook lower clock data d)) = 200
     \<and> db_notifications (snd (hh_webhook lower clock data d)) = db_notifications d"
proof -
  from assms(2) have "filter (\<lambda>u. u_hh_user_id u = Some (e_user_id event)) (db_users d) = []"
    by (simp add: filter_empty_conv)
  with assms(1) show ?thesis
    by (simp add: hh_webhook_def Let_def status_code_def)
qed

theorem webhook_unknown_user_witness:
  "WebhookEvent_validate (sample_body (ustr ''E9'')) =
     Inr \<lparr>e_id = ustr ''ev1'', e_subscription_id = ustr ''sub1'',
          e_action_type = ustr ''NEW_RESPONSE_OR_INVITATION_VACANCY'',
          e_user_id = ustr ''E9'', e_payload = sample_payload\<rparr>
   \<and> \<not> (\<exists>u \<in> set (db_users sample_db). u_hh_user_id u = Some (ustr ''E9''))
   \<and> fst (hh_webhook lower_basic (\<lambda>k. 7) (sample_body (ustr ''E9'')) sample_db)
       = Inr (PlainTextResponse (ustr ''unknown user'') 200)
   \<and> status_code (fst (hh_webhook lower_basic (\<lambda>k. 7) (sample_body (ustr ''E9'')) sample_db)) = 200
   \<and> db_notifications (snd (hh_webhook lower_basic (\<lambda>k. 7) (sample_body (ustr ''E9'')) sample_db))
       = db_notifications sample_db"
proof -
  let ?event = "\<lparr>e_id = ustr ''ev1'', e_subscription_id = ustr ''sub1'',
          e_action_type = ustr ''NEW_RESPONSE_OR_INVITATION_VACANCY'',
          e_user_id = ustr ''E9'', e_payload = sample_payload\<rparr>"
  have valid: "WebhookEvent_validate (sample_body (ustr ''E9'')) = Inr ?event"
    by (simp add: WebhookEvent_validate_def sample_body_def)
  have unknown: "\<forall>u \<in> set (db_users sample_db). u_hh_user_id u \<noteq> Some (e_user_id ?event)"
    by (simp add: sample_db_def user_a_def user_b_def ustr_def)
  from unknown have "\<not> (\<exists>u \<in> set (db_users sample_db). u_hh_user_id u = Some (ustr ''E9''))"
    by simp
  with valid webhook_unknown_user [OF valid unknown, of lower_basic "\<lambda>k. 7"]
  show ?thesis by blast
qed

text \<open>
  C7. A webhook event with \<open>action_type\<close> \<open>NEW_RESPONSE_OR_INVITATION_VACANCY\<close> whose
  \<open>user_id\<close> is the \<open>hh_user_id\<close> of exactly one user, with a payload holding
  \<open>vacancy_id = "1"\<close>, \<open>resume_id = "2"\<close> and \<open>topic_id = "t1"\<close>, is answered with \<open>ok\<close>, 200
  and adds exactly one notification: of that user, of kind \<open>invitation\<close>, not a rejection,
  unsent, with \<open>hh_object_id = "t1"\<close>. The next cycle of the delivery worker makes exactly
  one delivery call for it, to that user's chat with its text, and its \<open>sent\<close> field is the
  outcome of that call; with an endpoint that accepts every call it is marked sent.
\<close>

theorem webhook_invitation_end_to_end:
  assumes valid: "WebhookEvent_validate data = Inr event"
    and action: "e_action_type event = ustr ''NEW_RESPONSE_OR_INVITATION_VACANCY''"
    and vacancy: "e_payload event (ustr ''vacancy_id'') = Some (ustr ''1'')"
    and resume: "e_payload event (ustr ''resume_id'') = Some (ustr ''2'')"
    and topic: "e_payload event (ustr ''topic_id'') = Some (ustr ''t1'')"
    and known: "filter (\<lambda>u. u_hh_user_id u = Some (e_user_id event)) (db_users d) = [user]"
    and keys: "distinct (map u_id (db_users d))"
    and hook: "hh_webhook lower clock data d = (r, d')"
    and cycle: "notifications_worker_cycle send (db_users d') (db_notifications d') e = (ns', calls, e')"
  shows "r = Inr (PlainTextResponse (ustr ''ok'') 200)
     \<and> db_notifications d' = db_notifications d @
          [\<lparr>n_user_id = u_id user, n_kind = ustr ''invitation'', n_hh_object_id = Some (ustr ''t1''),
            n_text = invitation_header @ ustr ''1'' @ [10] @ ustr ''resume_id: '' @ ustr ''2'',
            n_is_rejection = False, n_sent = False,
            n_created_at = clock (length (db_notifications d))\<rparr>]
     \<and> (\<exists>c. filter (\<lambda>c. c_row c = length (db_notifications d)) calls = [c]
            \<and> c_chat c = u_telegram_id user
            \<and> c_text c = invitation_header @ ustr ''1'' @ [10] @ ustr ''resume_id: '' @ ustr ''2''
            \<and> n_sent (ns' ! length (db_notifications d)) = c_ok c)
     \<and> ((\<forall>e0 chat txt. fst (send e0 chat txt)) \<longrightarrow> n_sent (ns' ! length (db_notifications d)))"
proof -
  let ?k = "length (db_notifications d)"
  let ?notif = "\<lparr>n_user_id = u_id user, n_kind = ustr ''invitation'', n_hh_object_id = Some (ustr ''t1''),
            n_text = invitation_header @ ustr ''1'' @ [10] @ ustr ''resume_id: '' @ ustr ''2'',
            n_is_rejection = False, n_sent = False, n_created_at = clock ?k\<rparr>"
  have t1: "truthy (Some (ustr ''t1''))" by (simp add: truthy_def ustr_def)
  from hook have r: "r = fst (hh_webhook lower clock data d)" and d': "d' = snd (hh_webhook lower clock data d)"
    by simp_all
  from hh_webhook_invitation [OF valid action known, of lower clock]
  have resp: "r = Inr (PlainTextResponse (ustr ''ok'') 200)"
    and us: "db_users d' = db_users d"
    and ns: "db_notifications d' = db_notifications d @ [?notif]"
    using t1 by (simp_all add: r d' vacancy resume topic py_or_def py_str_def)
  have "user \<in> set (filter (\<lambda>u. u_hh_user_id u = Some (e_user_id event)) (db_users d))"
    by (simp add: known)
  then have uin: "user \<in> set (db_users d')" by (simp add: us)
  have own: "\<exists>c. filter (\<lambda>c. c_row c = ?k) calls = [c]
           \<and> c_chat c = u_telegram_id user \<and> c_text c = n_text (db_notifications d' ! ?k)
           \<and> n_sent (ns' ! ?k) = c_ok c"
  proof (rule cycle_own_call [OF _ _ _ uin _ _ cycle])
    show "distinct (map u_id (db_users d'))" using keys by (simp add: us)
    show "?k < length (db_notifications d')" by (simp add: ns)
    show "\<not> n_sent (db_notifications d' ! ?k)" by (simp add: ns)
    show "u_id user = n_user_id (db_notifications d' ! ?k)" by (simp add: ns)
    show "\<not> (n_is_rejection (db_notifications d' ! ?k) \<and> u_mute_rejections user)" by (simp add: ns)
  qed
  then obtain c where c: "filter (\<lambda>c. c_row c = ?k) calls = [c]"
    and cc: "c_chat c = u_telegram_id user" "c_text c = n_text (db_notifications d' ! ?k)"
    and cs: "n_sent (ns' ! ?k) = c_ok c" by blast
  have ctext: "c_text c = invitation_header @ ustr ''1'' @ [10] @ ustr ''resume_id: '' @ ustr ''2''"
    using cc(2) by (simp add: ns)
  have "n_sent (ns' ! ?k)" if all: "\<forall>e0 chat txt. fst (send e0 chat txt)"
  proof -
    have "c \<in> set (filter (\<lambda>c. c_row c = ?k) calls)" by (simp add: c)
    then have "c \<in> set calls" by simp
    moreover from cycle have "calls = fst (snd (deliver send (unsent_rows (db_users d') (db_notifications d')) (db_notifications d') e))"
      by (simp add: notifications_worker_cycle_def)
    ultimately have "c_ok c" using deliver_calls_ok [OF all] by blast
    with cs show ?thesis by simp
  qed
  with resp ns c cc(1) ctext cs show ?thesis by blast
qed

theorem webhook_invitation_end_to_end_witness:
  "fst (hh_webhook lower_basic (\<lambda>k. 7) (sample_body (ustr ''E2'')) sample_db)
     = Inr (PlainTextResponse (ustr ''ok'') 200)
   \<and> db_notifications (snd (hh_webhook lower_basic (\<lambda>k. 7) (sample_body (ustr ''E2'')) sample_db))
     = [\<lparr>n_user_id = 2, n_kind = ustr ''invitation'', n_hh_object_id = Some (ustr ''t1''),
         n_text = invitation_header @ ustr ''1'' @ [10] @ ustr ''resume_id: '' @ ustr ''2'',
         n_is_rejection = False, n_sent = False, n_created_at = 7\<rparr>]
   \<and> n_sent (fst (notifications_worker_cycle send_always
         (db_users (snd (hh_webhook lower_basic (\<lambda>k. 7) (sample_body (ustr ''E2'')) sample_db)))
         (db_notifications (snd (hh_webhook lower_basic (\<lambda>k. 7) (sample_body (ustr ''E2'')) sample_db)))
         ()) ! 0)"
proof -
  let ?event = "\<lparr>e_id = ustr ''ev1'', e_subscription_id = ustr ''sub1'',
          e_action_type = ustr ''NEW_RESPONSE_OR_INVITATION_VACANCY'',
          e_user_id = ustr ''E2'', e_payload = sample_payload\<rparr>"
  let ?X = "hh_webhook lower_basic (\<lambda>k. 7) (sample_body (ustr ''E2'')) sample_db"
  let ?C = "notifications_worker_cycle send_always (db_users (snd ?X)) (db_notifications (snd ?X)) ()"
  have valid: "WebhookEvent_validate (sample_body (ustr ''E2'')) = Inr ?event"
    by (simp add: WebhookEvent_validate_def sample_body_def)
  have action: "e_action_type ?event = ustr ''NEW_RESPONSE_OR_INVITATION_VACANCY''"
    by simp
  have vacancy: "e_payload ?event (ustr ''vacancy_id'') = Some (ustr ''1'')"
    and resume: "e_payload ?event (ustr ''resume_id'') = Some (ustr ''2'')"
    and topic: "e_payload ?event (ustr ''topic_id'') = Some (ustr ''t1'')"
    by (simp_all add: sample_payload_def ustr_def)
  have known: "filter (\<lambda>u. u_hh_user_id u = Some (e_user_id ?event)) (db_users sample_db) = [user_b]"
    by (simp add: sample_db_def user_a_def user_b_def ustr_def)
  have keys: "distinct (map u_id (db_users sample_db))"
    by (simp add: sample_db_def user_a_def user_b_def)
  have hook: "?X = (fst ?X, snd ?X)" by (simp only: prod.collapse)
  have cyc: "?C = (fst ?C, fst (snd ?C), snd (snd ?C))" by (simp only: prod.collapse)
  have always: "\<forall>e0 chat txt. fst (send_always e0 chat txt)"
    by (simp add: send_always_def)
  note T = webhook_invitation_end_to_end [OF valid action vacancy resume topic known keys hook cyc]
  have l: "db_notifications sample_db = []" by (simp add: sample_db_def)
  have u: "u_id user_b = 2" by (simp add: user_b_def)
  have r: "fst ?X = Inr (PlainTextResponse (ustr ''ok'') 200)"
    by (rule T [THEN conjunct1])
  have n: "db_notifications (snd ?X)
     = [\<lparr>n_user_id = 2, n_kind = ustr ''invitation'', n_hh_object_id = Some (ustr ''t1''),
         n_text = invitation_header @ ustr ''1'' @ [10] @ ustr ''resume_id: '' @ ustr ''2'',
         n_is_rejection = False, n_sent = False, n_created_at = 7\<rparr>]"
    using T [THEN conjunct2, THEN conjunct1] by (simp add: l u)
  have "n_sent (fst ?C ! length (db_notifications sample_db))"
    using T [THEN conjunct2, THEN conjunct2, THEN conjunct2] always by (rule mp)
  then have s: "n_sent (fst ?C ! 0)" by (simp only: l list.size)
  from r n s show ?thesis by (intro conjI)
qed

text \<open>
  C8. A webhook request whose body lacks the required field \<open>id\<close>: \<open>WebhookEvent(**data)\<close>
  raises \<open>ValidationError\<close>, the handler does not catch it, no table is touched, and the
  caller receives status 500.
\<close>

theorem webhook_missing_field_server_error:
  "hh_webhook lower_basic (\<lambda>k. 7) ((sample_body (ustr ''E2''))\<lparr>b_id := None\<rparr>) sample_db
     = (Inl ValidationError, sample_db)
   \<and> status_code (fst (hh_webhook lower_basic (\<lambda>k. 7)
         ((sample_body (ustr ''E2''))\<lparr>b_id := None\<rparr>) sample_db)) = 500
   \<and> \<not> (400 \<le> status_code (fst (hh_webhook lower_basic (\<lambda>k. 7)
         ((sample_body (ustr ''E2''))\<lparr>b_id := None\<rparr>) sample_db))
        \<and> status_code (fst (hh_webhook lower_basic (\<lambda>k. 7)
         ((sample_body (ustr ''E2''))\<lparr>b_id := None\<rparr>) sample_db)) < 500)"
proof -
  have "WebhookEvent_validate ((sample_body (ustr ''E2''))\<lparr>b_id := None\<rparr>) = Inl ValidationError"
    by (rule validate_missing) simp
  then show ?thesis
    by (simp add: hh_webhook_def status_code_def)
qed

section \<open>The poll ingestor\<close>

text \<open>
  C2, as amended. A second cycle of the poll ingestor against the same upstream answers
  leaves the notifications table as the first cycle left it (and ends the same way). When
  the table starts with at most one message notification per user and dedup key, no cycle
  raises, the table keeps that property (never two), and after the cycle every inbound
  message with a non-empty trimmed text that the cycle read for a user has exactly one
  notification of kind \<open>message\<close> of that user under its message id.
\<close>

theorem poll_dedup:
  assumes "hh_messages_cycle lower clock up users ns = (err, ns1)"
  shows "hh_messages_cycle lower clock' up users ns1 = (err, ns1)
     \<and> (unique_messages ns \<longrightarrow>
          err = None \<and> unique_messages ns1
          \<and> (\<forall>user \<in> set users. \<forall>msg \<in> set (user_messages up user). eligible msg \<longrightarrow>
                msg_count (u_id user) (py_str (m_id msg)) ns1 = 1))"
proof (intro conjI impI)
  from assms show "hh_messages_cycle lower clock' up users ns1 = (err, ns1)"
    by (rule hh_messages_cycle_idem)
next
  let ?us = "filter (\<lambda>u. u_hh_access_token u \<noteq> None) users"
  assume u: "unique_messages ns"
  from assms have e: "err = fst (poll_users lower clock up ns ?us)"
    and n: "ns1 = snd (poll_users lower clock up ns ?us)"
    by (simp_all add: hh_messages_cycle_def)
  note P = poll_users_unique [OF u, of lower clock up ?us]
  from P show "err = None" by (simp add: e)
  from P show "unique_messages ns1" by (simp add: n)
  show "\<forall>user \<in> set users. \<forall>msg \<in> set (user_messages up user). eligible msg \<longrightarrow>
                msg_count (u_id user) (py_str (m_id msg)) ns1 = 1"
  proof (intro ballI impI)
    fix user msg
    assume a: "user \<in> set users" "msg \<in> set (user_messages up user)" "eligible msg"
    have "u_hh_access_token user \<noteq> None"
    proof
      assume "u_hh_access_token user = None"
      then have "user_messages up user = []" by (rule user_messages_no_token)
      with a(2) show False by simp
    qed
    with a(1) have "user \<in> set ?us" by simp
    with P a(2,3) show "msg_count (u_id user) (py_str (m_id msg)) ns1 = 1"
      unfolding n by blast
  qed
qed

theorem poll_dedup_witness:
  "hh_messages_cycle lower_basic (\<lambda>k. 7 + k) sample_upstream [user_a, user_b] []
     = (None, [message_row 2 (ustr ''m2'') (ustr ''hello'') 7,
               message_row 2 (ustr ''None'') (ustr ''first'') 8])
   \<and> hh_messages_cycle lower_basic (\<lambda>k. 100 + k) sample_upstream [user_a, user_b]
        [message_row 2 (ustr ''m2'') (ustr ''hello'') 7,
         message_row 2 (ustr ''None'') (ustr ''first'') 8]
     = (None, [message_row 2 (ustr ''m2'') (ustr ''hello'') 7,
               message_row 2 (ustr ''None'') (ustr ''first'') 8])
   \<and> unique_messages []
   \<and> unique_messages [message_row 2 (ustr ''m2'') (ustr ''hello'') 7,
                       message_row 2 (ustr ''None'') (ustr ''first'') 8]
   \<and> eligible msg_inbound
   \<and> msg_count 2 (ustr ''m2'') [message_row 2 (ustr ''m2'') (ustr ''hello'') 7,
                                  message_row 2 (ustr ''None'') (ustr ''first'') 8] = 1"
proof -
  let ?ns1 = "[message_row 2 (ustr ''m2'') (ustr ''hello'') 7,
               message_row 2 (ustr ''None'') (ustr ''first'') 8]"
  note T = poll_dedup [OF sample_cycle, of "\<lambda>k. 100 + k"]
  have again: "hh_messages_cycle lower_basic (\<lambda>k. 100 + k) sample_upstream [user_a, user_b] ?ns1 = (None, ?ns1)"
    by (rule T [THEN conjunct1])
  from T [THEN conjunct2] unique_messages_Nil
  have U: "None = (None :: error option) \<and> unique_messages ?ns1
          \<and> (\<forall>user \<in> set [user_a, user_b]. \<forall>msg \<in> set (user_messages sample_upstream user). eligible msg \<longrightarrow>
                msg_count (u_id user) (py_str (m_id msg)) ?ns1 = 1)"
    by (rule mp)
  then have u1: "unique_messages ?ns1" by blast
  have "msg_inbound \<in> set (user_messages sample_upstream user_b)"
    by (simp add: sample_user_messages)
  with U sample_eligible have "msg_count (u_id user_b) (py_str (m_id msg_inbound)) ?ns1 = 1"
    by simp
  then have c: "msg_count 2 (ustr ''m2'') ?ns1 = 1"
    by (simp add: user_b_def msg_inbound_def py_str_def)
  from sample_cycle again unique_messages_Nil u1 sample_eligible c show ?thesis
    by (intro conjI)
qed

text \<open>
  C2 as stated fails for an upstream message that the loop passes over by design: the
  outbound message \<open>m1\<close> of the second user has no notification after two cycles.
\<close>

theorem poll_dedup_counterexample:
  "msg_outbound \<in> set (user_messages sample_upstream user_b)
   \<and> m_id msg_outbound = Some (ustr ''m1'')
   \<and> msg_count (u_id user_b) (ustr ''m1'')
        (snd (hh_messages_cycle lower_basic (\<lambda>k. 7 + k) sample_upstream [user_a, user_b]
           (snd (hh_messages_cycle lower_basic (\<lambda>k. 7 + k) sample_upstream [user_a, user_b] []))))
      \<noteq> 1"
proof -
  let ?ns1 = "[message_row 2 (ustr ''m2'') (ustr ''hello'') 7,
               message_row 2 (ustr ''None'') (ustr ''first'') 8]"
  have "hh_messages_cycle lower_basic (\<lambda>k. 7 + k) sample_upstream [user_a, user_b] ?ns1 = (None, ?ns1)"
    using sample_cycle by (rule hh_messages_cycle_idem)
  then have "snd (hh_messages_cycle lower_basic (\<lambda>k. 7 + k) sample_upstream [user_a, user_b]
           (snd (hh_messages_cycle lower_basic (\<lambda>k. 7 + k) sample_upstream [user_a, user_b] []))) = ?ns1"
    by (simp add: sample_cycle)
  moreover have "msg_count (u_id user_b) (ustr ''m1'') ?ns1 = 0"
    by (simp add: msg_count_def existing_notifications_def message_row_def user_b_def ustr_def)
  ultimately show ?thesis
    by (simp add: sample_user_messages msg_outbound_def)
qed

text \<open>
  C10. A polled message without an \<open>id\<close> gets the dedup key \<open>None\<close> (the string). While a
  user has no message notification under that key, an id-less inbound message with
  non-empty text adds one; once the user has one, every id-less message is passed over
  whatever its text, and no id-less message ever adds a second: the number of message
  notifications of a user under the key \<open>None\<close> after a cycle is at most one, or what it
  was before the cycle.
\<close>

theorem idless_messages_share_key:
  assumes "m_id msg = None"
  shows "py_str (m_id msg) = ustr ''None''
     \<and> (eligible msg \<and> msg_count (u_id user) (ustr ''None'') ns = 0 \<longrightarrow>
          (\<exists>n. poll_message lower clock user ns msg = Inr (ns @ [n])
                \<and> n_user_id n = u_id user \<and> n_kind n = ustr ''message''
                \<and> n_hh_object_id n = Some (ustr ''None'')))
     \<and> (msg_count (u_id user) (ustr ''None'') ns = 1 \<longrightarrow>
          poll_message lower clock user ns msg = Inr ns)
     \<and> (1 \<le> msg_count (u_id user) (ustr ''None'') ns \<longrightarrow>
          poll_message lower clock user ns msg = Inr ns
          \<or> poll_message lower clock user ns msg = Inl MultipleResultsFound)
     \<and> msg_count uid (ustr ''None'') (snd (hh_messages_cycle lower clock up users ns))
          \<le> max 1 (msg_count uid (ustr ''None'') ns)"
proof -
  from assms have key: "py_str (m_id msg) = ustr ''None''" by (simp add: py_str_def)
  have new: "\<exists>n. poll_message lower clock user ns msg = Inr (ns @ [n])
                \<and> n_user_id n = u_id user \<and> n_kind n = ustr ''message''
                \<and> n_hh_object_id n = Some (ustr ''None'')"
    if "eligible msg \<and> msg_count (u_id user) (ustr ''None'') ns = 0"
    using that poll_message_new [of msg user ns lower clock] by (auto simp: key)
  have one: "poll_message lower clock user ns msg = Inr ns"
    if "msg_count (u_id user) (ustr ''None'') ns = 1"
  proof (cases "eligible msg")
    case True
    with that show ?thesis by (simp add: poll_message_eligible key)
  next
    case False
    then show ?thesis by (simp add: poll_message_skip)
  qed
  have some: "poll_message lower clock user ns msg = Inr ns
          \<or> poll_message lower clock user ns msg = Inl MultipleResultsFound"
    if "1 \<le> msg_count (u_id user) (ustr ''None'') ns"
  proof (cases "eligible msg")
    case True
    with that show ?thesis by (simp add: poll_message_eligible key)
  next
    case False
    then show ?thesis by (simp add: poll_message_skip)
  qed
  let ?ns' = "snd (hh_messages_cycle lower clock up users ns)"
  from hh_messages_cycle_step [of ns lower clock up users]
  have "msg_count uid (ustr ''None'') ?ns' = msg_count uid (ustr ''None'') ns
       \<or> (msg_count uid (ustr ''None'') ns = 0 \<and> msg_count uid (ustr ''None'') ?ns' = 1)"
    by (simp add: dedup_step_def)
  then have bound: "msg_count uid (ustr ''None'') ?ns' \<le> max 1 (msg_count uid (ustr ''None'') ns)"
    by auto
  from key new one some bound show ?thesis by blast
qed

theorem idless_messages_share_key_witness:
  "m_id (msg_idless (ustr ''second'')) = None
   \<and> py_str (m_id (msg_idless (ustr ''second''))) = ustr ''None''
   \<and> eligible (msg_idless (ustr ''first''))
   \<and> msg_count (u_id user_b) (ustr ''None'') [] = 0
   \<and> (\<exists>n. poll_message lower_basic (\<lambda>k. 7 + k) user_b [] (msg_idless (ustr ''first'')) = Inr ([] @ [n])
          \<and> n_user_id n = u_id user_b \<and> n_kind n = ustr ''message''
          \<and> n_hh_object_id n = Some (ustr ''None''))
   \<and> msg_count (u_id user_b) (ustr ''None'') [message_row 2 (ustr ''None'') (ustr ''first'') 8] = 1
   \<and> poll_message lower_basic (\<lambda>k. 7 + k) user_b [message_row 2 (ustr ''None'') (ustr ''first'') 8]
         (msg_idless (ustr ''second''))
       = Inr [message_row 2 (ustr ''None'') (ustr ''first'') 8]"
proof -
  let ?ns = "[message_row 2 (ustr ''None'') (ustr ''first'') 8]"
  have id1: "m_id (msg_idless (ustr ''first'')) = None" and id2: "m_id (msg_idless (ustr ''second'')) = None"
    by (simp_all add: msg_idless_def)
  have el: "eligible (msg_idless (ustr ''first''))"
    by (simp add: eligible_def msg_idless_def py_strip_def py_isspace_def ustr_def)
  have c0: "msg_count (u_id user_b) (ustr ''None'') [] = 0"
    by (simp add: msg_count_def existing_notifications_def)
  have c1: "msg_count (u_id user_b) (ustr ''None'') ?ns = 1"
    by (simp add: msg_count_def existing_notifications_def message_row_def user_b_def)
  note A = idless_messages_share_key [OF id1, of user_b "[]" lower_basic "\<lambda>k. 7 + k"]
  note B = idless_messages_share_key [OF id2, of user_b ?ns lower_basic "\<lambda>k. 7 + k"]
  from B have key: "py_str (m_id (msg_idless (ustr ''second''))) = ustr ''None''"
    by (rule conjunct1)
  from A el c0 have new: "\<exists>n. poll_message lower_basic (\<lambda>k. 7 + k) user_b [] (msg_idless (ustr ''first'')) = Inr ([] @ [n])
          \<and> n_user_id n = u_id user_b \<and> n_kind n = ustr ''message''
          \<and> n_hh_object_id n = Some (ustr ''None'')"
    by blast
  from B c1 have skip: "poll_message lower_basic (\<lambda>k. 7 + k) user_b ?ns (msg_idless (ustr ''second'')) = Inr ?ns"
    by blast
  from id2 key el c0 new c1 skip show ?thesis by (intro conjI)
qed

section \<open>The life of a notification\<close>

text \<open>
  C9. The webhook handler and a cycle of the poll ingestor leave every existing
  notification as it is (they only append rows). A cycle of the delivery worker adds no
  row and changes at most the field \<open>sent\<close> of a row, and never from true to false; every
  other field, among them \<open>text\<close> and \<open>is_rejection\<close>, is as before.
\<close>

theorem notification_lifecycle:
  "take (length (db_notifications d)) (db_notifications (snd (hh_webhook lower clock data d)))
     = db_notifications d
   \<and> take (length ns) (snd (hh_messages_cycle lower clock up users ns)) = ns
   \<and> length (fst (notifications_worker_cycle send users ns e)) = length ns
   \<and> (\<forall>i < length ns.
         fst (notifications_worker_cycle send users ns e) ! i
           = (ns ! i)\<lparr>n_sent := n_sent (fst (notifications_worker_cycle send users ns e) ! i)\<rparr>
         \<and> (n_sent (ns ! i) \<longrightarrow> n_sent (fst (notifications_worker_cycle send users ns e) ! i)))"
proof (intro conjI allI impI)
  show "take (length (db_notifications d)) (db_notifications (snd (hh_webhook lower clock data d)))
     = db_notifications d"
    by (rule hh_webhook_prefix)
  show "take (length ns) (snd (hh_messages_cycle lower clock up users ns)) = ns"
    using hh_messages_cycle_step [of ns lower clock up users] by (simp add: dedup_step_def)
  show "length (fst (notifications_worker_cycle send users ns e)) = length ns"
    by (simp add: notifications_worker_cycle_def deliver_length)
next
  fix i assume "i < length ns"
  then show "fst (notifications_worker_cycle send users ns e) ! i
           = (ns ! i)\<lparr>n_sent := n_sent (fst (notifications_worker_cycle send users ns e) ! i)\<rparr>"
    by (rule cycle_fields(1))
next
  fix i assume "i < length ns" and "n_sent (ns ! i)"
  from cycle_fields(2) [OF this(1)] this(2)
  show "n_sent (fst (notifications_worker_cycle send users ns e) ! i)"
    by (rule mp)
qed

theorem notification_lifecycle_witness:
  "n_sent ([(pending 1 (ustr ''x'') False 5)\<lparr>n_sent := True\<rparr>, pending 2 (ustr ''y'') False 6] ! 0)
   \<and> fst (notifications_worker_cycle (send_except 101) [user_a, user_b]
          [(pending 1 (ustr ''x'') False 5)\<lparr>n_sent := True\<rparr>, pending 2 (ustr ''y'') False 6] ()) ! 0
     = (pending 1 (ustr ''x'') False 5)\<lparr>n_sent := True\<rparr>
   \<and> fst (notifications_worker_cycle (send_except 101) [user_a, user_b]
          [(pending 1 (ustr ''x'') False 5)\<lparr>n_sent := True\<rparr>, pending 2 (ustr ''y'') False 6] ()) ! 1
     = (pending 2 (ustr ''y'') False 6)\<lparr>n_sent := True\<rparr>"
proof -
  let ?ns = "[(pending 1 (ustr ''x'') False 5)\<lparr>n_sent := True\<rparr>, pending 2 (ustr ''y'') False 6]"
  let ?ns' = "fst (notifications_worker_cycle (send_except 101) [user_a, user_b] ?ns ())"
  note T = notification_lifecycle [where ns = ?ns and send = "send_except 101"
      and users = "[user_a, user_b]" and e = "()", THEN conjunct2, THEN conjunct2, THEN conjunct2,
      rule_format, of 0]
  have l: "0 < length ?ns" by simp
  have s0: "n_sent (?ns ! 0)" by simp
  from T [OF l] have eq: "?ns' ! 0 = (?ns ! 0)\<lparr>n_sent := n_sent (?ns' ! 0)\<rparr>"
    by (rule conjunct1)
  from T [OF l, THEN conjunct2] s0 have sent: "n_sent (?ns' ! 0)"
    by (rule mp)
  have a: "?ns' ! 0 = (pending 1 (ustr ''x'') False 5)\<lparr>n_sent := True\<rparr>"
    by (subst eq) (simp add: sent)
  have b: "?ns' ! 1 = (pending 2 (ustr ''y'') False 6)\<lparr>n_sent := True\<rparr>"
    by (simp add: notifications_worker_cycle_def unsent_rows_def user_a_def user_b_def pending_def
          send_except_def mark_sent_def)
  from s0 a b show ?thesis by (intro conjI)
qed

end
